theory Spec2Isabelle
  imports Complex_Main "HOL-Library.Word"
begin

unbundle bit_operations_syntax

section \<open>Data model of filein.go\<close>

text \<open>
  Bytes are \<open>8 word\<close>, Go's \<open>uint64\<close> is \<open>64 word\<close> (so \<open>+\<close> and shifts wrap),
  \<open>int16\<close> and \<open>int32\<close> header fields are read as words and converted with \<open>sint\<close>.
  Go's \<open>int\<close> is taken as 64 bits wide (amd64, arm64). Offsets and indices of type
  \<open>int\<close> and \<open>int64\<close> are modelled as \<open>int\<close>: they are bounded by the size of the
  buffer and the sum of at most 32767 chunk lengths below \<open>2^31\<close>, and never come near
  \<open>2^63\<close>. The conversion \<open>int(b)\<close> of a \<open>uint64\<close> is \<open>sint\<close>.
\<close>

type_synonym byte = "8 word"

type_synonym uint64 = "64 word"

text \<open>
  A failed call is either a panic (the process halts) or an \<open>error\<close> value handed
  back to the caller. The constructors other than \<open>Panic\<close> are the \<open>errors.New\<close>
  calls of the source, in the order they occur.
\<close>

datatype failure =
    Panic
  | NilRawData
  | InvalidHeader "byte list"
  | NotMIDIFile
  | InvalidFormat int
  | InvalidNumTracks
  | InvalidTrackHeader "byte list"
  | VLQError

text \<open>
  \<open>rawData\<close> is a Go slice. A slice expression \<open>s[lo:hi]\<close> on a slice is checked
  against the capacity of \<open>s\<close>, not against its length, and every byte read of the
  source has the form \<open>m.rawData[i : i+1][0]\<close>. So the buffer is modelled by its
  backing array from the start of the slice up to its capacity (\<open>store\<close>) together
  with its length (\<open>used\<close>, Go's \<open>len(m.rawData)\<close>).
\<close>

record buf =
  store :: "byte list"
  used :: nat

definition cap :: "buf \<Rightarrow> int" where
  "cap b = int (length (store b))"

text \<open>\<open>b[lo:hi]\<close>: panics unless \<open>0 \<le> lo \<le> hi \<le> cap(b)\<close>.\<close>

definition slice :: "buf \<Rightarrow> int \<Rightarrow> int \<Rightarrow> failure + byte list" where
  "slice b lo hi =
     (if 0 \<le> lo \<and> lo \<le> hi \<and> hi \<le> cap b
      then Inr (take (nat (hi - lo)) (drop (nat lo) (store b)))
      else Inl Panic)"

text \<open>\<open>b[i : i+1][0]\<close>.\<close>

definition byteAt :: "buf \<Rightarrow> int \<Rightarrow> failure + byte" where
  "byteAt b i =
     (if 0 \<le> i \<and> i + 1 \<le> cap b then Inr (store b ! nat i) else Inl Panic)"

text \<open>\<open>xs[i]\<close> on a slice of length \<open>length xs\<close>: panics out of range.\<close>

definition idx :: "'a list \<Rightarrow> int \<Rightarrow> failure + 'a" where
  "idx xs i = (if 0 \<le> i \<and> i < int (length xs) then Inr (xs ! nat i) else Inl Panic)"

text \<open>\<open>xs[i] = v\<close>.\<close>

definition upd :: "'a list \<Rightarrow> int \<Rightarrow> 'a \<Rightarrow> failure + 'a list" where
  "upd xs i v = (if 0 \<le> i \<and> i < int (length xs) then Inr (xs[nat i := v]) else Inl Panic)"

section \<open>readVariableLength\<close>

text \<open>
  The \<open>for\<close> loop of \<open>readVariableLength\<close> (lines 389 to 400): \<open>val\<close> is
  \<open>*val\<close>, the result is the pair of \<open>*val\<close> and the returned \<open>bitIndex\<close>.
\<close>

function vlqLoop :: "buf \<Rightarrow> uint64 \<Rightarrow> int \<Rightarrow> failure + (uint64 \<times> int)" where
  "vlqLoop b val bitIndex =
     (if bitIndex \<ge> int (used b) then Inl VLQError
      else (case byteAt b bitIndex of
              Inl e \<Rightarrow> Inl e
            | Inr c \<Rightarrow>
                (let val' = push_bit 7 val + ucast (c AND 0x7F) in
                 if c AND 0x80 = 0 then Inr (val', bitIndex + 1)
                 else vlqLoop b val' (bitIndex + 1))))"
  by pat_completeness auto

termination
  by (relation "measure (\<lambda>(b, val, bitIndex). nat (int (used b) - bitIndex))") auto

declare vlqLoop.simps [simp del]

definition readVariableLength :: "buf \<Rightarrow> int \<Rightarrow> failure + (uint64 \<times> int)" where
  "readVariableLength b bitIndex =
     (case byteAt b bitIndex of
        Inl e \<Rightarrow> Inl e
      | Inr c \<Rightarrow>
          (let val = (ucast c :: uint64) in
           if val AND 0x80 > 0 then vlqLoop b (val AND 0x7F) (bitIndex + 1)
           else Inr (val, bitIndex + 1)))"

section \<open>Floating point\<close>

text \<open>
  \<open>float64\<close> values are idealised: finite values are exact reals (rounding is not
  modelled), and a division keeps the IEEE 754 results for a zero divisor, which Go
  returns without a panic. Every divisor of the source is the conversion of a
  non-negative integer or a product of two, so a zero divisor is \<open>+0\<close>.
\<close>

datatype float64 = Finite real | PosInf | NegInf | NaN

definition fdiv :: "real \<Rightarrow> real \<Rightarrow> float64" where
  "fdiv a b =
     (if b \<noteq> 0 then Finite (a / b)
      else if a = 0 then NaN else if 0 < a then PosInf else NegInf)"

section \<open>MIDIFile\<close>

record TempoChange =
  Count :: uint64
  TickSeconds :: float64

record MIDIFile =
  NumTracks :: int
  Format :: int
  Division :: int
  UsingTimeCode :: bool
  tickSeconds :: "float64 list"
  trackPointers :: "int list"
  trackOffsets :: "int list"
  trackLengths :: "int list"
  trackStatus :: "byte list"
  tempoEvents :: "TempoChange list"
  trackCounters :: "uint64 list"
  trackTempoIndex :: "int list"
  rawData :: buf

section \<open>NextEvent\<close>

text \<open>
  Lines 313 to 318: the loop \<open>for i := 0; i < int(b); i++\<close> appends \<open>int(b)\<close> bytes
  to the event. The caller passes \<open>nat (sint b)\<close>, the number of iterations (none
  when the conversion of \<open>b\<close> to \<open>int\<close> is negative).
\<close>

fun readRest :: "buf \<Rightarrow> nat \<Rightarrow> int \<Rightarrow> byte list \<Rightarrow> failure + (int \<times> byte list)" where
  "readRest raw 0 bitIndex event = Inr (bitIndex, event)"
| "readRest raw (Suc n) bitIndex event =
     (case byteAt raw bitIndex of
        Inl e \<Rightarrow> Inl e
      | Inr c \<Rightarrow> readRest raw n (bitIndex + 1) (event @ [c]))"

text \<open>
  The length of a meta or sysex event (lines 265 to 272 and 278 to 285). The short
  variable declaration \<open>bitIndex, err := m.readVariableLength(&b, bitIndex)\<close> inside
  the \<open>case\<close> clause declares a new \<open>bitIndex\<close>; the outer one stays at
  \<open>position\<close>, and \<open>b\<close> becomes the decoded length plus the number of bytes of its
  encoding, so that the length bytes are part of the event. An error of
  \<open>readVariableLength\<close> is turned into a panic.
\<close>

definition readLength :: "buf \<Rightarrow> int \<Rightarrow> failure + uint64" where
  "readLength raw position =
     (case readVariableLength raw position of
        Inl e \<Rightarrow> Inl Panic
      | Inr (b, bitIndex') \<Rightarrow> Inr (b + (word_of_int bitIndex' - word_of_int position)))"

text \<open>
  What the \<open>switch\<close> of lines 255 to 311 decides: the running status to store, the
  event bytes so far, the number \<open>b\<close> of bytes still to read, and \<open>isTempoEvent\<close>.
\<close>

record header =
  hStatus :: byte
  hEvent :: "byte list"
  hBitIndex :: int
  hRest :: uint64
  hTempo :: bool

text \<open>
  \<open>classify raw format status bitIndex c\<close> is the \<open>switch c\<close>, entered with
  \<open>bitIndex\<close> just past \<open>c\<close> and \<open>status = m.trackStatus[track]\<close>. The case
  expression \<open>0xF0 | 0xF1 | ... | 0xF7\<close> is a bitwise OR of constants, written here
  as the source has it.
\<close>

definition classify :: "buf \<Rightarrow> int \<Rightarrow> byte \<Rightarrow> int \<Rightarrow> byte \<Rightarrow> failure + header" where
  "classify raw format status bitIndex c =
     (if c = 0xFF then
        (case byteAt raw bitIndex of
           Inl e \<Rightarrow> Inl e
         | Inr c2 \<Rightarrow>
             (case readLength raw (bitIndex + 1) of
                Inl e \<Rightarrow> Inl e
              | Inr b \<Rightarrow>
                  Inr \<lparr>hStatus = 0, hEvent = [c, c2], hBitIndex = bitIndex + 1, hRest = b,
                       hTempo = (format \<noteq> 1 \<and> c2 = 0x51)\<rparr>))
      else if c = (0xF0 OR 0xF1 OR 0xF2 OR 0xF3 OR 0xF4 OR 0xF5 OR 0xF6 OR 0xF7) then
        (case readLength raw bitIndex of
           Inl e \<Rightarrow> Inl e
         | Inr b \<Rightarrow>
             Inr \<lparr>hStatus = 0, hEvent = [c], hBitIndex = bitIndex, hRest = b,
                  hTempo = False\<rparr>)
      else if c AND 0x80 > 0 then
        (if c > 0xF0 then Inl Panic
         else Inr \<lparr>hStatus = c, hEvent = [c], hBitIndex = bitIndex,
                   hRest = (if c AND 0xF0 = 0xC0 \<or> c AND 0xF0 = 0xD0 then 1 else 2),
                   hTempo = False\<rparr>)
      else if status AND 0x80 = 1 then
        Inr \<lparr>hStatus = status, hEvent = [status, c], hBitIndex = bitIndex,
             hRest = (if status AND 0xF0 \<noteq> 0xC0 \<and> status AND 0xF0 \<noteq> 0xD0 then 1 else 0),
             hTempo = False\<rparr>
      else Inl Panic)"

text \<open>
  Lines 245 to 318: the delta time, the status byte candidate \<open>c\<close>, the
  \<open>switch\<close> and the rest of the event. A failure of \<open>readVariableLength\<close> is
  turned into a panic. In the result \<open>hBitIndex\<close> is the \<open>bitIndex\<close> after the last
  byte read and \<open>hEvent\<close> the whole event.
\<close>

definition decodeEvent :: "buf \<Rightarrow> int \<Rightarrow> byte \<Rightarrow> int \<Rightarrow> failure + (uint64 \<times> header)" where
  "decodeEvent raw format status pointer =
     (case readVariableLength raw pointer of
        Inl e \<Rightarrow> Inl Panic
      | Inr (ticks, bitIndex) \<Rightarrow>
          (case byteAt raw bitIndex of
             Inl e \<Rightarrow> Inl e
           | Inr c \<Rightarrow>
               (case classify raw format status (bitIndex + 1) c of
                  Inl e \<Rightarrow> Inl e
                | Inr h \<Rightarrow>
                    (case readRest raw (nat (sint (hRest h))) (hBitIndex h) (hEvent h) of
                       Inl e \<Rightarrow> Inl e
                     | Inr (bitIndex', event) \<Rightarrow>
                         Inr (ticks, h\<lparr>hBitIndex := bitIndex', hEvent := event\<rparr>)))))"

text \<open>
  \<open>value := event[3]<<16 + event[4]<<8 + event[5]\<close> (lines 201 and 324): the operands
  are bytes, so is the result.
\<close>

definition tempoValue :: "byte list \<Rightarrow> failure + byte" where
  "tempoValue event =
     (case idx event 3 of
        Inl e \<Rightarrow> Inl e
      | Inr e3 \<Rightarrow>
          (case idx event 4 of
             Inl e \<Rightarrow> Inl e
           | Inr e4 \<Rightarrow>
               (case idx event 5 of
                  Inl e \<Rightarrow> Inl e
                | Inr e5 \<Rightarrow> Inr (push_bit 16 e3 + push_bit 8 e4 + e5))))"

text \<open>Lines 321 to 327: the rate of the track from a tempo event.\<close>

definition setTempo :: "MIDIFile \<Rightarrow> int \<Rightarrow> byte list \<Rightarrow> failure + MIDIFile" where
  "setTempo m track event =
     (let tickrate = real_of_int (Division m AND 0x7FFF) in
      case tempoValue event of
        Inl e \<Rightarrow> Inl e
      | Inr v \<Rightarrow>
          (case upd (tickSeconds m) track (fdiv (0.000001 * real (unat v)) tickrate) of
             Inl e \<Rightarrow> Inl e
           | Inr ts \<Rightarrow> Inr (m\<lparr>tickSeconds := ts\<rparr>)))"

text \<open>Lines 329 to 337: the tick counter of the track and the tempo map.\<close>

definition followTempoMap :: "MIDIFile \<Rightarrow> int \<Rightarrow> uint64 \<Rightarrow> failure + MIDIFile" where
  "followTempoMap m track ticks =
     (case idx (trackCounters m) track of
        Inl e \<Rightarrow> Inl e
      | Inr counter \<Rightarrow>
          (let m1 = m\<lparr>trackCounters := (trackCounters m)[nat track := counter + ticks]\<rparr> in
           case idx (trackTempoIndex m1) track of
             Inl e \<Rightarrow> Inl e
           | Inr ti \<Rightarrow>
               (case idx (tempoEvents m1) ti of
                  Inl e \<Rightarrow> Inl e
                | Inr tempoEvent \<Rightarrow>
                    if counter + ticks \<ge> Count tempoEvent
                       \<and> ti < int (length (tempoEvents m1)) - 1
                    then (case upd (tickSeconds m1) track (TickSeconds tempoEvent) of
                            Inl e \<Rightarrow> Inl e
                          | Inr ts \<Rightarrow>
                              Inr (m1\<lparr>trackTempoIndex := (trackTempoIndex m1)[nat track := ti + 1],
                                      tickSeconds := ts\<rparr>))
                    else Inr m1)))"

text \<open>Lines 320 to 338.\<close>

definition updateRate ::
  "MIDIFile \<Rightarrow> int \<Rightarrow> uint64 \<Rightarrow> bool \<Rightarrow> byte list \<Rightarrow> failure + MIDIFile" where
  "updateRate m track ticks isTempoEvent event =
     (if UsingTimeCode m then Inr m
      else (case (if isTempoEvent then setTempo m track event else Inr m) of
              Inl e \<Rightarrow> Inl e
            | Inr m1 \<Rightarrow> if Format m1 = 1 then followTempoMap m1 track ticks else Inr m1))"

text \<open>
  \<open>NextEvent\<close> returns the new state of the file, the delta ticks and the event;
  \<open>None\<close> is the \<open>nil\<close> event at the end of the track. Every path of the source
  past the end-of-track test reads or writes \<open>m.trackStatus[track]\<close> or panics before,
  so the status is read once, before decoding, and stored after.
\<close>

definition NextEvent :: "MIDIFile \<Rightarrow> int \<Rightarrow> failure + (MIDIFile \<times> uint64 \<times> byte list option)" where
  "NextEvent m track =
     (if track \<ge> NumTracks m then Inl Panic
      else
        (case idx (trackPointers m) track of
           Inl e \<Rightarrow> Inl e
         | Inr pointer \<Rightarrow>
        (case idx (trackOffsets m) track of
           Inl e \<Rightarrow> Inl e
         | Inr offset \<Rightarrow>
        (case idx (trackLengths m) track of
           Inl e \<Rightarrow> Inl e
         | Inr len \<Rightarrow>
             if pointer - offset \<ge> len then Inr (m, 0, None)
             else
        (case idx (trackStatus m) track of
           Inl e \<Rightarrow> Inl e
         | Inr status \<Rightarrow>
        (case decodeEvent (rawData m) (Format m) status pointer of
           Inl e \<Rightarrow> Inl e
         | Inr (ticks, h) \<Rightarrow>
        (case updateRate (m\<lparr>trackStatus := (trackStatus m)[nat track := hStatus h]\<rparr>)
                track ticks (hTempo h) (hEvent h) of
           Inl e \<Rightarrow> Inl e
         | Inr m' \<Rightarrow>
             Inr (m'\<lparr>trackPointers := (trackPointers m')[nat track := hBitIndex h]\<rparr>,
                  ticks, Some (hEvent h)))))))))"

section \<open>RewindTrack and TickSeconds\<close>

definition RewindTrack :: "MIDIFile \<Rightarrow> int \<Rightarrow> failure + MIDIFile" where
  "RewindTrack m track =
     (if track \<ge> NumTracks m then Inl Panic
      else
        (case idx (trackOffsets m) track of
           Inl e \<Rightarrow> Inl e
         | Inr offset \<Rightarrow>
        (case upd (trackPointers m) track offset of
           Inl e \<Rightarrow> Inl e
         | Inr ps \<Rightarrow>
        (case upd (trackStatus m) track 0 of
           Inl e \<Rightarrow> Inl e
         | Inr st \<Rightarrow>
        (case idx (tempoEvents m) 0 of
           Inl e \<Rightarrow> Inl e
         | Inr t0 \<Rightarrow>
        (case upd (tickSeconds m) track (TickSeconds t0) of
           Inl e \<Rightarrow> Inl e
         | Inr ts \<Rightarrow>
             Inr (m\<lparr>trackPointers := ps, trackStatus := st, tickSeconds := ts\<rparr>)))))))"

text \<open>The accessor \<open>TickSeconds(track)\<close>; the name without suffix is the field of \<open>TempoChange\<close>.\<close>

definition TickSeconds_of :: "MIDIFile \<Rightarrow> int \<Rightarrow> failure + float64" where
  "TickSeconds_of m track =
     (if track \<ge> NumTracks m then Inl Panic else idx (tickSeconds m) track)"

section \<open>Progress of the cursor\<close>

lemma byteAt_Inr: "byteAt raw i = Inr c \<Longrightarrow> 0 \<le> i \<and> i + 1 \<le> cap raw \<and> c = store raw ! nat i"
  by (auto simp: byteAt_def split: if_splits)

lemma vlqLoop_bounds:
  "vlqLoop raw val i = Inr (v, j) \<Longrightarrow> i < j \<and> j \<le> cap raw"
proof (induction raw val i rule: vlqLoop.induct)
  case (1 b val bitIndex)
  note unf = vlqLoop.simps [of b val bitIndex]
  show ?case
  proof (cases "byteAt b bitIndex")
    case (Inl e)
    with "1.prems" unf show ?thesis by (simp split: if_splits)
  next
    case (Inr c)
    note bounds = byteAt_Inr [OF Inr]
    show ?thesis
    proof (cases "c AND 0x80 = 0")
      case True
      with "1.prems" unf Inr bounds show ?thesis
        by (auto simp: Let_def split: if_splits)
    next
      case False
      with "1.prems" unf Inr have ge: "\<not> bitIndex \<ge> int (used b)"
        and rec: "vlqLoop b (push_bit 7 val + ucast (c AND 0x7F)) (bitIndex + 1) = Inr (v, j)"
        by (auto simp: Let_def split: if_splits)
      from "1.IH" [OF ge Inr refl False rec] show ?thesis by simp
    qed
  qed
qed

lemma readVariableLength_bounds:
  "readVariableLength raw i = Inr (v, j) \<Longrightarrow> i < j \<and> j \<le> cap raw"
  unfolding readVariableLength_def
  by (auto simp: Let_def split: sum.splits if_splits dest!: byteAt_Inr vlqLoop_bounds)

lemma readRest_result:
  "readRest raw n i ev = Inr (j, ev') \<Longrightarrow>
     j = i + int n \<and> (0 < n \<longrightarrow> 0 \<le> i \<and> j \<le> cap raw) \<and> length ev' = length ev + n"
proof (induction n arbitrary: i ev)
  case 0
  then show ?case by simp
next
  case (Suc n)
  from Suc.prems obtain c where c: "byteAt raw i = Inr c"
    and rec: "readRest raw n (i + 1) (ev @ [c]) = Inr (j, ev')"
    by (auto split: sum.splits)
  from Suc.IH [OF rec] byteAt_Inr [OF c] show ?case by auto
qed

lemma classify_result:
  "classify raw format status i c = Inr h \<Longrightarrow>
     i \<le> hBitIndex h \<and> (i < hBitIndex h \<longrightarrow> hBitIndex h \<le> cap raw) \<and> hEvent h \<noteq> []"
  unfolding classify_def
  by (auto split: if_splits sum.splits dest!: byteAt_Inr)

lemma decodeEvent_bounds:
  assumes "decodeEvent raw format status p = Inr (ticks, h)"
  shows "p < hBitIndex h \<and> hBitIndex h \<le> cap raw \<and> hEvent h \<noteq> []"
proof -
  from assms obtain i c h0 j ev where
    v: "readVariableLength raw p = Inr (ticks, i)" and c: "byteAt raw i = Inr c"
    and k: "classify raw format status (i + 1) c = Inr h0"
    and r: "readRest raw (nat (sint (hRest h0))) (hBitIndex h0) (hEvent h0) = Inr (j, ev)"
    and h: "h = h0\<lparr>hBitIndex := j, hEvent := ev\<rparr>"
    unfolding decodeEvent_def by (auto split: sum.splits prod.splits)
  from readVariableLength_bounds [OF v] byteAt_Inr [OF c] classify_result [OF k]
    readRest_result [OF r] h
  show ?thesis by (cases "nat (sint (hRest h0))") auto
qed

lemma idx_Inr: "idx xs i = Inr x \<Longrightarrow> 0 \<le> i \<and> nat i < length xs \<and> x = xs ! nat i"
  by (auto simp: idx_def split: if_splits)

lemma upd_Inr: "upd xs i v = Inr ys \<Longrightarrow> 0 \<le> i \<and> nat i < length xs \<and> ys = xs[nat i := v]"
  by (auto simp: upd_def split: if_splits)

text \<open>The fields that the rate update leaves alone.\<close>

definition sameFrame :: "MIDIFile \<Rightarrow> MIDIFile \<Rightarrow> bool" where
  "sameFrame m m' \<longleftrightarrow>
     NumTracks m' = NumTracks m \<and> Format m' = Format m \<and> Division m' = Division m
     \<and> UsingTimeCode m' = UsingTimeCode m \<and> rawData m' = rawData m
     \<and> tempoEvents m' = tempoEvents m \<and> trackOffsets m' = trackOffsets m
     \<and> trackLengths m' = trackLengths m
     \<and> length (trackPointers m') = length (trackPointers m)
     \<and> length (trackStatus m') = length (trackStatus m)
     \<and> length (tickSeconds m') = length (tickSeconds m)
     \<and> length (trackCounters m') = length (trackCounters m)
     \<and> length (trackTempoIndex m') = length (trackTempoIndex m)"

lemma setTempo_frame:
  "setTempo m track event = Inr m' \<Longrightarrow>
     sameFrame m m' \<and> trackPointers m' = trackPointers m \<and> trackStatus m' = trackStatus m"
  unfolding setTempo_def sameFrame_def
  by (auto simp: Let_def split: sum.splits dest!: upd_Inr)

lemma followTempoMap_frame:
  "followTempoMap m track ticks = Inr m' \<Longrightarrow>
     sameFrame m m' \<and> trackPointers m' = trackPointers m \<and> trackStatus m' = trackStatus m"
  unfolding followTempoMap_def sameFrame_def
  by (auto simp: Let_def split: sum.splits if_splits dest!: upd_Inr)

lemma sameFrame_trans: "sameFrame a b \<Longrightarrow> sameFrame b c \<Longrightarrow> sameFrame a c"
  by (simp add: sameFrame_def)

lemma sameFrame_refl: "sameFrame a a"
  by (simp add: sameFrame_def)

lemma updateRate_frame:
  "updateRate m track ticks isTempo event = Inr m' \<Longrightarrow>
     sameFrame m m' \<and> trackPointers m' = trackPointers m \<and> trackStatus m' = trackStatus m"
  unfolding updateRate_def
  by (auto simp: sameFrame_refl split: sum.splits if_splits
      dest!: setTempo_frame followTempoMap_frame intro: sameFrame_trans)

lemma NextEvent_None:
  "NextEvent m track = Inr (m', ticks, None) \<Longrightarrow> m' = m \<and> ticks = 0"
  unfolding NextEvent_def
  by (auto split: sum.splits if_splits prod.splits)

lemma NextEvent_Some:
  assumes "NextEvent m track = Inr (m', ticks, Some ev)"
  shows "sameFrame m m' \<and> 0 \<le> track \<and> nat track < length (trackPointers m)
         \<and> trackPointers m ! nat track < trackPointers m' ! nat track
         \<and> trackPointers m' ! nat track \<le> cap (rawData m) \<and> ev \<noteq> []"
proof -
  from assms obtain pointer status h m1 where
    p: "idx (trackPointers m) track = Inr pointer"
    and d: "decodeEvent (rawData m) (Format m) status pointer = Inr (ticks, h)"
    and u: "updateRate (m\<lparr>trackStatus := (trackStatus m)[nat track := hStatus h]\<rparr>)
              track ticks (hTempo h) (hEvent h) = Inr m1"
    and m': "m' = m1\<lparr>trackPointers := (trackPointers m1)[nat track := hBitIndex h]\<rparr>"
    and ev: "ev = hEvent h"
    unfolding NextEvent_def by (auto split: sum.splits if_splits prod.splits)
  from updateRate_frame [OF u] idx_Inr [OF p] decodeEvent_bounds [OF d] m' ev
  show ?thesis by (auto simp: sameFrame_def)
qed

section \<open>NextMIDIEvent\<close>

text \<open>
  The loop of \<open>NextMIDIEvent\<close> (lines 353 to 358), entered with the result of the
  last call of \<open>NextEvent\<close>. It ends because every event read moves the cursor of
  the track towards the capacity of the buffer.
\<close>

function midiLoop ::
  "MIDIFile \<Rightarrow> int \<Rightarrow> uint64 \<Rightarrow> byte list option \<Rightarrow> failure + (MIDIFile \<times> uint64 \<times> byte list option)"
  where
  "midiLoop m track ticks midiEvent =
     (case midiEvent of
        None \<Rightarrow> Inr (m, ticks, None)
      | Some ev \<Rightarrow>
          (case idx ev 0 of
             Inl e \<Rightarrow> Inl e
           | Inr c \<Rightarrow>
               if c < 0xF0 then Inr (m, ticks, Some ev)
               else (case NextEvent m track of
                       Inl e \<Rightarrow> Inl e
                     | Inr (m', ticks', midiEvent') \<Rightarrow> midiLoop m' track ticks' midiEvent')))"
  by pat_completeness auto

termination
proof (relation "measure (\<lambda>(m, track, ticks, ev).
         2 * nat (cap (rawData m) - trackPointers m ! nat track)
         + (case ev of None \<Rightarrow> 0 | Some _ \<Rightarrow> 1))", goal_cases)
  case 1
  show ?case by simp
next
  case (2 m track ticks midiEvent ev c r m' rest ticks' midiEvent')
  then have ne: "NextEvent m track = Inr (m', ticks', midiEvent')" by simp
  show ?case
  proof (cases midiEvent')
    case None
    with NextEvent_None [of m track m' ticks'] ne 2 show ?thesis by simp
  next
    case (Some ev')
    with NextEvent_Some [of m track m' ticks' ev'] ne 2 show ?thesis
      by (simp add: sameFrame_def)
  qed
qed

declare midiLoop.simps [simp del]

definition NextMIDIEvent ::
  "MIDIFile \<Rightarrow> int \<Rightarrow> failure + (MIDIFile \<times> uint64 \<times> byte list option)" where
  "NextMIDIEvent m track =
     (if track \<ge> NumTracks m then Inl Panic
      else (case NextEvent m track of
              Inl e \<Rightarrow> Inl e
            | Inr (m', ticks, midiEvent) \<Rightarrow> midiLoop m' track ticks midiEvent))"

section \<open>parseRawData\<close>

text \<open>\<open>binary.Read\<close> with \<open>binary.BigEndian\<close> into an \<open>int32\<close> and an \<open>int16\<close>.\<close>

definition beInt32 :: "byte list \<Rightarrow> int" where
  "beInt32 bs = sint (word_rcat bs :: 32 word)"

definition beInt16 :: "byte list \<Rightarrow> int" where
  "beInt16 bs = sint (word_rcat bs :: 16 word)"

definition MThd :: "byte list" where
  "MThd = [0x4D, 0x54, 0x68, 0x64]"

definition MTrk :: "byte list" where
  "MTrk = [0x4D, 0x54, 0x72, 0x6B]"

text \<open>Lines 120 to 136: \<open>tickrate\<close> and \<open>UsingTimeCode\<close> from the division field.\<close>

definition tickRate :: "int \<Rightarrow> real \<times> bool" where
  "tickRate division =
     (if division AND 0x8000 > 0 then
        (let t = real_of_int ((- division) AND 0x7F00);
             t' = (if t = 29 then 29.97 else t)
         in (t' * real_of_int (division AND 0x00FF), True))
      else (real_of_int (division AND 0x00FF), False))"

text \<open>
  The loop of lines 148 to 173 over the track chunks, with the number of tracks still
  to index: the result lists \<open>(length, offset)\<close> of every track, in order.
\<close>

fun indexTracks :: "buf \<Rightarrow> nat \<Rightarrow> int \<Rightarrow> failure + (int \<times> int) list" where
  "indexTracks b 0 bitIndex = Inr []"
| "indexTracks b (Suc n) bitIndex =
     (case slice b bitIndex (bitIndex + 4) of
        Inl e \<Rightarrow> Inl e
      | Inr chunkType \<Rightarrow>
          if chunkType \<noteq> MTrk then Inl (InvalidTrackHeader chunkType)
          else (case slice b (bitIndex + 4) (bitIndex + 8) of
                  Inl e \<Rightarrow> Inl e
                | Inr lb \<Rightarrow>
                    (case indexTracks b n (bitIndex + 8 + beInt32 lb) of
                       Inl e \<Rightarrow> Inl e
                     | Inr rest \<Rightarrow> Inr ((beInt32 lb, bitIndex + 8) # rest))))"

text \<open>Lines 200 to 209: a tempo event of track 0 enters the tempo map.\<close>

definition recordTempo :: "MIDIFile \<Rightarrow> real \<Rightarrow> uint64 \<Rightarrow> byte list \<Rightarrow> failure + MIDIFile" where
  "recordTempo m tickrate count event =
     (case tempoValue event of
        Inl e \<Rightarrow> Inl e
      | Inr v \<Rightarrow>
          (let tempoEvent = \<lparr>Count = count, TickSeconds = fdiv (0.000001 * real (unat v)) tickrate\<rparr>;
               tail = int (length (tempoEvents m)) - 1
           in case idx (tempoEvents m) tail of
                Inl e \<Rightarrow> Inl e
              | Inr l \<Rightarrow>
                  if count > Count l
                  then Inr (m\<lparr>tempoEvents := tempoEvents m @ [tempoEvent]\<rparr>)
                  else Inr (m\<lparr>tempoEvents := (tempoEvents m)[nat tail := tempoEvent]\<rparr>)))"

lemma recordTempo_frame:
  "recordTempo m tickrate count event = Inr m' \<Longrightarrow>
     rawData m' = rawData m \<and> trackPointers m' = trackPointers m"
  unfolding recordTempo_def
  by (auto simp: Let_def split: sum.splits if_splits)

text \<open>The loop of lines 194 to 214 over the events of track 0.\<close>

function tempoLoop ::
  "MIDIFile \<Rightarrow> real \<Rightarrow> uint64 \<Rightarrow> byte list option \<Rightarrow> failure + MIDIFile" where
  "tempoLoop m tickrate count event =
     (case event of
        None \<Rightarrow> Inr m
      | Some ev \<Rightarrow>
          (case (if length ev = 6 \<and> ev ! 0 = 0xFF \<and> ev ! 1 = 0x51 \<and> ev ! 2 = 0x03
                 then recordTempo m tickrate count ev else Inr m) of
             Inl e \<Rightarrow> Inl e
           | Inr m1 \<Rightarrow>
               (case NextEvent m1 0 of
                  Inl e \<Rightarrow> Inl e
                | Inr (m2, countNew, event') \<Rightarrow>
                    tempoLoop m2 tickrate (count + countNew) event')))"
  by pat_completeness auto

termination
proof (relation "measure (\<lambda>(m, tickrate, count, ev).
         2 * nat (cap (rawData m) - trackPointers m ! 0)
         + (case ev of None \<Rightarrow> 0 | Some _ \<Rightarrow> 1))", goal_cases)
  case 1
  show ?case by simp
next
  case (2 m tickrate count event ev m1 r m2 rest countNew event')
  then have ne: "NextEvent m1 0 = Inr (m2, countNew, event')" by simp
  from 2 have fr: "rawData m1 = rawData m \<and> trackPointers m1 = trackPointers m"
    by (auto split: if_splits dest: recordTempo_frame)
  show ?case
  proof (cases event')
    case None
    with NextEvent_None [of m1 0 m2 countNew] ne fr 2 show ?thesis by simp
  next
    case (Some ev')
    with NextEvent_Some [of m1 0 m2 countNew ev'] ne fr 2 show ?thesis
      by (simp add: sameFrame_def)
  qed
qed

declare tempoLoop.simps [simp del]

text \<open>Lines 184 to 225: the tempo map of a format 1 file that does not use time code.\<close>

definition buildTempoMap :: "MIDIFile \<Rightarrow> real \<Rightarrow> failure + MIDIFile" where
  "buildTempoMap m tickrate =
     (case NextEvent (m\<lparr>UsingTimeCode := True\<rparr>) 0 of
        Inl e \<Rightarrow> Inl e
      | Inr (m1, count, event) \<Rightarrow>
          (case tempoLoop m1 tickrate count event of
             Inl e \<Rightarrow> Inl e
           | Inr m2 \<Rightarrow>
               (case RewindTrack m2 0 of
                  Inl e \<Rightarrow> Inl e
                | Inr m3 \<Rightarrow>
                    Inr (m3\<lparr>trackCounters := replicate (nat (NumTracks m3)) 0,
                            trackTempoIndex := replicate (nat (NumTracks m3)) 0,
                            UsingTimeCode := False\<rparr>))))"

text \<open>
  The fields of \<open>m\<close> after the loop over the track chunks (lines 104 to 173), from the
  header fields and the list \<open>(length, offset)\<close> of the tracks: the cursor of a track
  starts at its offset, its running status at 0, and its rate at \<open>1 / tickrate\<close> with
  time code and \<open>0.5 / tickrate\<close> without.
\<close>

definition newFile :: "buf \<Rightarrow> int \<Rightarrow> int \<Rightarrow> int \<Rightarrow> (int \<times> int) list \<Rightarrow> MIDIFile" where
  "newFile b format numTracks division tracks =
     (let (tickrate, timeCode) = tickRate division in
      \<lparr>NumTracks = numTracks, Format = format, Division = division,
       UsingTimeCode = timeCode,
       tickSeconds = map (\<lambda>_. if timeCode then fdiv 1.0 tickrate else fdiv 0.5 tickrate) tracks,
       trackPointers = map snd tracks, trackOffsets = map snd tracks,
       trackLengths = map fst tracks, trackStatus = map (\<lambda>_. 0) tracks,
       tempoEvents = [], trackCounters = [], trackTempoIndex = [], rawData = b\<rparr>)"

text \<open>
  \<open>parseRawData\<close> on \<open>m.rawData\<close>; \<open>None\<close> is the \<open>nil\<close> slice. The result is the
  file \<open>m\<close> after the call. The slices made with \<open>make\<close> (lines 143 to 147) panic for
  a negative \<open>NumTracks\<close>.
\<close>

definition parseRawData :: "buf option \<Rightarrow> failure + MIDIFile" where
  "parseRawData rawData' =
     (case rawData' of
        None \<Rightarrow> Inl NilRawData
      | Some b \<Rightarrow>
     (case slice b 0 4 of
        Inl e \<Rightarrow> Inl e
      | Inr chunkType \<Rightarrow>
          if chunkType \<noteq> MThd then Inl (InvalidHeader chunkType)
          else
     (case slice b 4 8 of
        Inl e \<Rightarrow> Inl e
      | Inr lb \<Rightarrow>
          if beInt32 lb \<noteq> 6 then Inl NotMIDIFile
          else
     (case slice b 8 10 of
        Inl e \<Rightarrow> Inl e
      | Inr fb \<Rightarrow>
          if beInt16 fb < 0 \<or> beInt16 fb > 2 then Inl (InvalidFormat (beInt16 fb))
          else
     (case slice b 10 12 of
        Inl e \<Rightarrow> Inl e
      | Inr nb \<Rightarrow>
          if beInt16 fb = 0 \<and> beInt16 nb \<noteq> 1 then Inl InvalidNumTracks
          else
     (case slice b 12 14 of
        Inl e \<Rightarrow> Inl e
      | Inr db \<Rightarrow>
          if beInt16 nb < 0 then Inl Panic
          else
     (case indexTracks b (nat (beInt16 nb)) 14 of
        Inl e \<Rightarrow> Inl e
      | Inr tracks \<Rightarrow>
          (let m = newFile b (beInt16 fb) (beInt16 nb) (beInt16 db) tracks in
     (case idx (tickSeconds m) 0 of
        Inl e \<Rightarrow> Inl e
      | Inr t0 \<Rightarrow>
          (let m = m\<lparr>tempoEvents := tempoEvents m @ [\<lparr>Count = 0, TickSeconds = t0\<rparr>]\<rparr>
           in if Format m = 1 \<and> \<not> UsingTimeCode m
              then buildTempoMap m (fst (tickRate (Division m)))
              else Inr m))))))))))"

text \<open>
  \<open>Read\<close> on the bytes that \<open>ioutil.ReadAll\<close> returned (a slice that is not
  \<open>nil\<close>): the file, or the error of \<open>parseRawData\<close> and no file.
\<close>

definition Read :: "buf \<Rightarrow> failure + MIDIFile" where
  "Read b = parseRawData (Some b)"

section \<open>Callers\<close>

text \<open>
  A caller that pulls \<open>n\<close> events from a track, one call of \<open>NextEvent\<close> after the
  other, as the loop of \<open>BuildMIDIDataFromMIDIFile\<close> does: the file after the calls
  and the results of the calls in order.
\<close>

fun nextEvents ::
  "MIDIFile \<Rightarrow> int \<Rightarrow> nat \<Rightarrow> failure + (MIDIFile \<times> (uint64 \<times> byte list option) list)" where
  "nextEvents m track 0 = Inr (m, [])"
| "nextEvents m track (Suc n) =
     (case NextEvent m track of
        Inl e \<Rightarrow> Inl e
      | Inr (m', ticks, event) \<Rightarrow>
          (case nextEvents m' track n of
             Inl e \<Rightarrow> Inl e
           | Inr (m'', rs) \<Rightarrow> Inr (m'', (ticks, event) # rs)))"

text \<open>
  The calls a user of the file can make, and a sequence of calls made one after the
  other; the results of the calls are dropped, the file is kept.
\<close>

datatype call = CallNextEvent int | CallNextMIDIEvent int | CallRewindTrack int

fun step :: "MIDIFile \<Rightarrow> call \<Rightarrow> failure + MIDIFile" where
  "step m (CallNextEvent track) =
     (case NextEvent m track of Inl e \<Rightarrow> Inl e | Inr (m', r) \<Rightarrow> Inr m')"
| "step m (CallNextMIDIEvent track) =
     (case NextMIDIEvent m track of Inl e \<Rightarrow> Inl e | Inr (m', r) \<Rightarrow> Inr m')"
| "step m (CallRewindTrack track) = RewindTrack m track"

fun run :: "MIDIFile \<Rightarrow> call list \<Rightarrow> failure + MIDIFile" where
  "run m [] = Inr m"
| "run m (c # cs) = (case step m c of Inl e \<Rightarrow> Inl e | Inr m' \<Rightarrow> run m' cs)"

section \<open>Vocabulary of the statements\<close>

text \<open>
  The variable-length quantity of the Standard MIDI File format, after the words of the
  specification (big-endian base 128, seven data bits per byte, the high bit set on every
  byte but the last). The source has no encoder; this one states what a "standard VLQ
  encoding" is.
\<close>

fun spec_vlqPrefix :: "nat \<Rightarrow> byte list" where
  "spec_vlqPrefix v =
     (if v = 0 then [] else spec_vlqPrefix (v div 128) @ [of_nat (v mod 128) OR 0x80])"

declare spec_vlqPrefix.simps [simp del]

definition spec_vlqEncode :: "nat \<Rightarrow> byte list" where
  "spec_vlqEncode v = spec_vlqPrefix (v div 128) @ [of_nat (v mod 128)]"

text \<open>
  The integer that the three payload bytes of a tempo event encode, big-endian, after the
  words of the specification (microseconds per quarter note).
\<close>

definition spec_tempoMicros :: "byte list \<Rightarrow> nat" where
  "spec_tempoMicros event = 65536 * unat (event ! 3) + 256 * unat (event ! 4) + unat (event ! 5)"

text \<open>
  A call returns a recoverable error and no file: an error value other than a panic.
\<close>

definition recoverable :: "failure + 'a \<Rightarrow> bool" where
  "recoverable r = (case r of Inl e \<Rightarrow> e \<noteq> Panic | Inr _ \<Rightarrow> False)"

text \<open>
  The header fields of a buffer, by their byte positions, after the words of the
  specification: the magic in bytes 0 to 3, the header length in bytes 4 to 7, the format
  in bytes 8 and 9 and the track count in bytes 10 and 11.
\<close>

definition spec_magic :: "buf \<Rightarrow> byte list" where
  "spec_magic b = take 4 (store b)"

definition spec_headerLength :: "buf \<Rightarrow> int" where
  "spec_headerLength b = beInt32 (take 4 (drop 4 (store b)))"

definition spec_format :: "buf \<Rightarrow> int" where
  "spec_format b = beInt16 (take 2 (drop 8 (store b)))"

definition spec_numTracks :: "buf \<Rightarrow> int" where
  "spec_numTracks b = beInt16 (take 2 (drop 10 (store b)))"

text \<open>
  The offset of track chunk \<open>k\<close>, counted from the chunk at \<open>start\<close>, when every chunk
  before it has the magic \<open>MTrk\<close> and its eight header bytes in the buffer: a chunk starts
  where the payload of the chunk before it ends.
\<close>

fun spec_chunkOffset :: "buf \<Rightarrow> int \<Rightarrow> nat \<Rightarrow> int option" where
  "spec_chunkOffset b start 0 = Some start"
| "spec_chunkOffset b start (Suc k) =
     (case slice b start (start + 4) of
        Inl e \<Rightarrow> None
      | Inr chunkType \<Rightarrow>
          if chunkType \<noteq> MTrk then None
          else (case slice b (start + 4) (start + 8) of
                  Inl e \<Rightarrow> None
                | Inr lb \<Rightarrow> spec_chunkOffset b (start + 8 + beInt32 lb) k))"

text \<open>
  The start of track chunk \<open>k\<close>, counted from the chunk at \<open>start\<close>, and its four magic
  bytes, read from the bytes of the buffer whether or not they are there: a chunk starts
  eight bytes and the declared payload length after the start of the chunk before it.
\<close>

fun spec_chunkStart :: "buf \<Rightarrow> int \<Rightarrow> nat \<Rightarrow> int" where
  "spec_chunkStart b start 0 = start"
| "spec_chunkStart b start (Suc k) =
     spec_chunkStart b (start + 8 + beInt32 (take 4 (drop (nat (start + 4)) (store b)))) k"

definition spec_chunkMagic :: "buf \<Rightarrow> nat \<Rightarrow> byte list" where
  "spec_chunkMagic b k = take 4 (drop (nat (spec_chunkStart b 14 k)) (store b))"

text \<open>
  The events that the loop of \<open>NextMIDIEvent\<close> drops: those whose first byte is
  \<open>0xF0\<close> or more.
\<close>

definition skipped :: "byte list option \<Rightarrow> bool" where
  "skipped event = (case event of None \<Rightarrow> False | Some bs \<Rightarrow> bs \<noteq> [] \<and> hd bs \<ge> 0xF0)"

text \<open>The sum of the delta ticks of a list of results of \<open>NextEvent\<close>.\<close>

definition totalTicks :: "(uint64 \<times> byte list option) list \<Rightarrow> nat" where
  "totalTicks rs = sum_list (map (\<lambda>(ticks, event). unat ticks) rs)"

text \<open>
  The shape of a file that \<open>Read\<close> returns: the slices of the tracks have one entry per
  track, the tempo map has its entry 0, and every cursor lies between the offset of its
  track and the capacity of the buffer.
\<close>

definition wf :: "MIDIFile \<Rightarrow> bool" where
  "wf m \<longleftrightarrow>
     length (trackPointers m) = nat (NumTracks m)
     \<and> length (trackOffsets m) = nat (NumTracks m)
     \<and> length (trackLengths m) = nat (NumTracks m)
     \<and> length (trackStatus m) = nat (NumTracks m)
     \<and> length (tickSeconds m) = nat (NumTracks m)
     \<and> tempoEvents m \<noteq> []
     \<and> list_all2 (\<lambda>offset pointer. offset \<le> pointer \<and> pointer \<le> cap (rawData m))
           (trackOffsets m) (trackPointers m)"

text \<open>The fields that no call changes after the tracks are indexed.\<close>

definition sameCore :: "MIDIFile \<Rightarrow> MIDIFile \<Rightarrow> bool" where
  "sameCore m m' \<longleftrightarrow>
     NumTracks m' = NumTracks m \<and> Format m' = Format m \<and> Division m' = Division m
     \<and> rawData m' = rawData m \<and> trackOffsets m' = trackOffsets m
     \<and> trackLengths m' = trackLengths m"

text \<open>The rate that \<open>parseRawData\<close> gives every track in its loop over the track chunks.\<close>

definition initialRate :: "int \<Rightarrow> float64" where
  "initialRate division =
     (if snd (tickRate division) then fdiv 1.0 (fst (tickRate division))
      else fdiv 0.5 (fst (tickRate division)))"

text \<open>
  What holds of the file \<open>m\<close> that \<open>Read\<close> makes of the buffer \<open>b\<close>: it is well formed,
  track 0 has the rate of entry 0 of the tempo map, and every track that the construction
  of the tempo map did not rewind has the initial rate.
\<close>

definition parsed :: "buf \<Rightarrow> MIDIFile \<Rightarrow> bool" where
  "parsed b m \<longleftrightarrow>
     wf m \<and> rawData m = b \<and> 0 < NumTracks m
     \<and> UsingTimeCode m = (Division m AND 0x8000 > 0)
     \<and> tickSeconds m ! 0 = TickSeconds (tempoEvents m ! 0)
     \<and> (\<forall>t < nat (NumTracks m). 0 < t \<or> Format m \<noteq> 1 \<or> UsingTimeCode m \<longrightarrow>
           tickSeconds m ! t = initialRate (Division m))"

section \<open>Example files\<close>

text \<open>
  A format 0 file with one track and division 480 (\<open>0x01E0\<close>). The track holds a
  tempo event of 500000 microseconds per quarter note (\<open>07 A1 20\<close>), a note-on with
  delta time 480, a note in running status (\<open>00 3E 40\<close>) and the end of track.
\<close>

definition bufA :: buf where
  "bufA = \<lparr>store =
     [0x4D, 0x54, 0x68, 0x64, 0x00, 0x00, 0x00, 0x06, 0x00, 0x00, 0x00, 0x01, 0x01, 0xE0,
      0x4D, 0x54, 0x72, 0x6B, 0x00, 0x00, 0x00, 0x13,
      0x00, 0xFF, 0x51, 0x03, 0x07, 0xA1, 0x20,
      0x83, 0x60, 0x90, 0x3C, 0x40,
      0x00, 0x3E, 0x40,
      0x00, 0xFF, 0x2F, 0x00], used = 41\<rparr>"

text \<open>The file that \<open>Read\<close> makes of it, and the file after the tempo event and the note-on.\<close>

definition stateA :: MIDIFile where
  "stateA = \<lparr>NumTracks = 1, Format = 0, Division = 480, UsingTimeCode = False,
     tickSeconds = [Finite (1 / 448)], trackPointers = [22], trackOffsets = [22],
     trackLengths = [19], trackStatus = [0],
     tempoEvents = [\<lparr>Count = 0, TickSeconds = Finite (1 / 448)\<rparr>],
     trackCounters = [], trackTempoIndex = [], rawData = bufA\<rparr>"

definition stateA1 :: MIDIFile where
  "stateA1 = stateA\<lparr>tickSeconds := [Finite (1 / 15000000)], trackPointers := [29]\<rparr>"

definition stateA2 :: MIDIFile where
  "stateA2 = stateA1\<lparr>trackPointers := [34], trackStatus := [0x90]\<rparr>"

text \<open>
  A format 0 file with one track and division 96 that holds a system exclusive event
  \<open>F0 03 01 02 F7\<close> (status, length 3, payload) and the end of track.
\<close>

definition bufS :: buf where
  "bufS = \<lparr>store =
     [0x4D, 0x54, 0x68, 0x64, 0x00, 0x00, 0x00, 0x06, 0x00, 0x00, 0x00, 0x01, 0x00, 0x60,
      0x4D, 0x54, 0x72, 0x6B, 0x00, 0x00, 0x00, 0x0A,
      0x00, 0xF0, 0x03, 0x01, 0x02, 0xF7,
      0x00, 0xFF, 0x2F, 0x00], used = 32\<rparr>"

definition stateS :: MIDIFile where
  "stateS = \<lparr>NumTracks = 1, Format = 0, Division = 96, UsingTimeCode = False,
     tickSeconds = [Finite (1 / 192)], trackPointers = [22], trackOffsets = [22],
     trackLengths = [10], trackStatus = [0],
     tempoEvents = [\<lparr>Count = 0, TickSeconds = Finite (1 / 192)\<rparr>],
     trackCounters = [], trackTempoIndex = [], rawData = bufS\<rparr>"

text \<open>
  A format 1 file with two tracks and division 96: track 0 holds a tempo event at tick 0
  and the end of track, track 1 a note-on and the end of track.
\<close>

definition bufB :: buf where
  "bufB = \<lparr>store =
     [0x4D, 0x54, 0x68, 0x64, 0x00, 0x00, 0x00, 0x06, 0x00, 0x01, 0x00, 0x02, 0x00, 0x60,
      0x4D, 0x54, 0x72, 0x6B, 0x00, 0x00, 0x00, 0x0B,
      0x00, 0xFF, 0x51, 0x03, 0x07, 0xA1, 0x20,
      0x00, 0xFF, 0x2F, 0x00,
      0x4D, 0x54, 0x72, 0x6B, 0x00, 0x00, 0x00, 0x08,
      0x00, 0x90, 0x3C, 0x40,
      0x00, 0xFF, 0x2F, 0x00], used = 49\<rparr>"

definition stateB :: MIDIFile where
  "stateB = \<lparr>NumTracks = 2, Format = 1, Division = 96, UsingTimeCode = False,
     tickSeconds = [Finite (1 / 3000000), Finite (1 / 192)],
     trackPointers = [22, 41], trackOffsets = [22, 41],
     trackLengths = [11, 8], trackStatus = [0, 0],
     tempoEvents = [\<lparr>Count = 0, TickSeconds = Finite (1 / 3000000)\<rparr>],
     trackCounters = [0, 0], trackTempoIndex = [0, 0], rawData = bufB\<rparr>"

text \<open>
  A format 0 file with one track and division 96 whose track chunk declares the length
  3 and holds the four bytes of a note-on event with its delta time.
\<close>

definition bufC :: buf where
  "bufC = \<lparr>store =
     [0x4D, 0x54, 0x68, 0x64, 0x00, 0x00, 0x00, 0x06, 0x00, 0x00, 0x00, 0x01, 0x00, 0x60,
      0x4D, 0x54, 0x72, 0x6B, 0x00, 0x00, 0x00, 0x03,
      0x00, 0x90, 0x3C, 0x40], used = 26\<rparr>"

definition stateC :: MIDIFile where
  "stateC = \<lparr>NumTracks = 1, Format = 0, Division = 96, UsingTimeCode = False,
     tickSeconds = [Finite (1 / 192)], trackPointers = [22], trackOffsets = [22],
     trackLengths = [3], trackStatus = [0],
     tempoEvents = [\<lparr>Count = 0, TickSeconds = Finite (1 / 192)\<rparr>],
     trackCounters = [], trackTempoIndex = [], rawData = bufC\<rparr>"

text \<open>
  A format 0 file with one track and division 96: a text meta event at delta time 480,
  a note-on at delta time 10 and the end of track.
\<close>

definition bufD :: buf where
  "bufD = \<lparr>store =
     [0x4D, 0x54, 0x68, 0x64, 0x00, 0x00, 0x00, 0x06, 0x00, 0x00, 0x00, 0x01, 0x00, 0x60,
      0x4D, 0x54, 0x72, 0x6B, 0x00, 0x00, 0x00, 0x0E,
      0x83, 0x60, 0xFF, 0x01, 0x01, 0x41,
      0x0A, 0x90, 0x3C, 0x40,
      0x00, 0xFF, 0x2F, 0x00], used = 36\<rparr>"

definition stateD :: MIDIFile where
  "stateD = \<lparr>NumTracks = 1, Format = 0, Division = 96, UsingTimeCode = False,
     tickSeconds = [Finite (1 / 192)], trackPointers = [22], trackOffsets = [22],
     trackLengths = [14], trackStatus = [0],
     tempoEvents = [\<lparr>Count = 0, TickSeconds = Finite (1 / 192)\<rparr>],
     trackCounters = [], trackTempoIndex = [], rawData = bufD\<rparr>"

text \<open>
  A format 1 file with three tracks and division 96. Track 0 holds a tempo event at
  tick 480 and the end of track; tracks 1 and 2 hold a note-on at tick 480, a note-off at
  the same tick and the end of track.
\<close>

definition bufT :: buf where
  "bufT = \<lparr>store =
     [0x4D, 0x54, 0x68, 0x64, 0x00, 0x00, 0x00, 0x06, 0x00, 0x01, 0x00, 0x03, 0x00, 0x60,
      0x4D, 0x54, 0x72, 0x6B, 0x00, 0x00, 0x00, 0x0C,
      0x83, 0x60, 0xFF, 0x51, 0x03, 0x07, 0xA1, 0x20, 0x00, 0xFF, 0x2F, 0x00,
      0x4D, 0x54, 0x72, 0x6B, 0x00, 0x00, 0x00, 0x0D,
      0x83, 0x60, 0x90, 0x3C, 0x40, 0x00, 0x80, 0x3C, 0x00, 0x00, 0xFF, 0x2F, 0x00,
      0x4D, 0x54, 0x72, 0x6B, 0x00, 0x00, 0x00, 0x0D,
      0x83, 0x60, 0x90, 0x3C, 0x40, 0x00, 0x80, 0x3C, 0x00, 0x00, 0xFF, 0x2F, 0x00],
     used = 76\<rparr>"

definition stateT :: MIDIFile where
  "stateT = \<lparr>NumTracks = 3, Format = 1, Division = 96, UsingTimeCode = False,
     tickSeconds = [Finite (1 / 192), Finite (1 / 192), Finite (1 / 192)],
     trackPointers = [22, 42, 63], trackOffsets = [22, 42, 63],
     trackLengths = [12, 13, 13], trackStatus = [0, 0, 0],
     tempoEvents = [\<lparr>Count = 0, TickSeconds = Finite (1 / 192)\<rparr>,
                    \<lparr>Count = 480, TickSeconds = Finite (1 / 3000000)\<rparr>],
     trackCounters = [0, 0, 0], trackTempoIndex = [0, 0, 0], rawData = bufT\<rparr>"

text \<open>Five buffers, each with one of the five defects.\<close>

definition badMagic :: buf where
  "badMagic = \<lparr>store = [0x52, 0x49, 0x46, 0x46], used = 4\<rparr>"

definition badLength :: buf where
  "badLength = \<lparr>store = [0x4D, 0x54, 0x68, 0x64, 0x00, 0x00, 0x00, 0x07], used = 8\<rparr>"

definition badFormat :: buf where
  "badFormat = \<lparr>store = [0x4D, 0x54, 0x68, 0x64, 0x00, 0x00, 0x00, 0x06, 0x00, 0x03], used = 10\<rparr>"

definition badCount :: buf where
  "badCount = \<lparr>store = [0x4D, 0x54, 0x68, 0x64, 0x00, 0x00, 0x00, 0x06, 0x00, 0x00, 0x00, 0x02],
                used = 12\<rparr>"

definition badTrack :: buf where
  "badTrack = \<lparr>store =
     [0x4D, 0x54, 0x68, 0x64, 0x00, 0x00, 0x00, 0x06, 0x00, 0x01, 0x00, 0x02, 0x00, 0x60,
      0x4D, 0x54, 0x72, 0x6B, 0x00, 0x00, 0x00, 0x04, 0x00, 0xFF, 0x2F, 0x00,
      0x4D, 0x54, 0x72, 0x58], used = 30\<rparr>"

text \<open>
  A buffer as \<open>ioutil.ReadAll\<close> returns it for a file of 26 bytes: the capacity is 512,
  the bytes past the length are 0. The header announces format 1 and two tracks; the
  first track chunk declares a payload of 1024 bytes, so that the second chunk would
  start at offset 1046.
\<close>

definition longChunk :: buf where
  "longChunk = \<lparr>store =
     [0x4D, 0x54, 0x68, 0x64, 0x00, 0x00, 0x00, 0x06, 0x00, 0x01, 0x00, 0x02, 0x00, 0x60,
      0x4D, 0x54, 0x72, 0x6B, 0x00, 0x00, 0x04, 0x00, 0x00, 0xFF, 0x2F, 0x00]
     @ replicate 486 0, used = 26\<rparr>"

section \<open>The variable-length quantity decoder\<close>

lemma spec_vlqEncode_values:
  "spec_vlqEncode 0 = [0x00]" "spec_vlqEncode 127 = [0x7F]" "spec_vlqEncode 128 = [0x81, 0x00]"
  "spec_vlqEncode 16383 = [0xFF, 0x7F]" "spec_vlqEncode 16384 = [0x81, 0x80, 0x00]"
  "spec_vlqEncode 2097151 = [0xFF, 0xFF, 0x7F]"
  by (simp_all add: spec_vlqEncode_def spec_vlqPrefix.simps)

lemma byteAt_append:
  "store b = pre @ enc @ post \<Longrightarrow> k < length enc \<Longrightarrow>
   byteAt b (int (length pre) + int k) = Inr (enc ! k)"
  by (simp add: byteAt_def cap_def nth_append nat_add_distrib)

text \<open>
  C8. For each \<open>v\<close> of 0, 127, 128, 16383, 16384 and 2097151, whose standard encodings
  have 1, 1, 2, 2, 3 and 3 bytes: when the encoding of \<open>v\<close> stands in the buffer at an
  offset (after any bytes \<open>pre\<close>, before any bytes \<open>post\<close>) and inside the length of the
  buffer, \<open>readVariableLength\<close> at that offset returns \<open>v\<close> and the offset just past
  the encoding, whose last byte is the first one with the high bit clear.
\<close>

theorem readVariableLength_roundtrip:
  assumes v: "v \<in> {0, 127, 128, 16383, 16384, 2097151}"
    and st: "store raw = pre @ spec_vlqEncode v @ post"
    and len: "length pre + length (spec_vlqEncode v) \<le> used raw"
  shows "readVariableLength raw (int (length pre)) =
           Inr (of_nat v, int (length pre) + int (length (spec_vlqEncode v)))
         \<and> (v, length (spec_vlqEncode v)) \<in>
             {(0, 1), (127, 1), (128, 2), (16383, 2), (16384, 3), (2097151, 3)}
         \<and> last (spec_vlqEncode v) AND 0x80 = 0
         \<and> list_all (\<lambda>c. c AND 0x80 \<noteq> 0) (butlast (spec_vlqEncode v))"
proof -
  note b = byteAt_append [OF st]
  note defs = spec_vlqEncode_values readVariableLength_def vlqLoop.simps add.assoc
  from v consider "v = 0" | "v = 127" | "v = 128" | "v = 16383" | "v = 16384" | "v = 2097151"
    by auto
  then show ?thesis
  proof cases
    case 1
    with b [of 0] show ?thesis by (simp add: defs)
  next
    case 2
    with b [of 0] show ?thesis by (simp add: defs)
  next
    case 3
    with b [of 0] b [of 1] len show ?thesis by (simp add: defs)
  next
    case 4
    with b [of 0] b [of 1] len show ?thesis by (simp add: defs)
  next
    case 5
    with b [of 0] b [of 1] b [of 2] len show ?thesis by (simp add: defs)
  next
    case 6
    with b [of 0] b [of 1] b [of 2] len show ?thesis by (simp add: defs)
  qed
qed

theorem readVariableLength_roundtrip_witness:
  "readVariableLength \<lparr>store = [0x00, 0x81, 0x80, 0x00, 0x90], used = 5\<rparr> 1 = Inr (16384, 4)"
  using readVariableLength_roundtrip
    [of 16384 "\<lparr>store = [0x00, 0x81, 0x80, 0x00, 0x90], used = 5\<rparr>" "[0x00]" "[0x90]"]
  by (simp add: spec_vlqEncode_values)

section \<open>Evaluation of the example files\<close>

lemma Read_bufA: "Read bufA = Inr stateA"
  by code_simp

lemma NextEvent_stateA:
  "NextEvent stateA 0 = Inr (stateA1, 0, Some [0xFF, 0x51, 0x03, 0x07, 0xA1, 0x20])"
  by code_simp

lemma NextEvent_stateA1: "NextEvent stateA1 0 = Inr (stateA2, 480, Some [0x90, 0x3C, 0x40])"
  by code_simp

lemma Read_bufS: "Read bufS = Inr stateS"
  by code_simp

section \<open>Running status\<close>

lemma status_test_false: "(s :: byte) AND 0x80 \<noteq> 1"
proof
  assume "s AND 0x80 = 1"
  then have "(s AND 0x80) AND 1 = 1 AND (1 :: byte)" by simp
  then show False by (simp add: and.assoc)
qed

lemma classify_data_byte:
  assumes "c AND 0x80 = 0"
  shows "classify raw format status bitIndex c = Inl Panic"
proof -
  from assms have "c \<noteq> 0xFF" "c \<noteq> 0xF7" by auto
  with assms show ?thesis
    by (simp add: classify_def status_test_false)
qed

lemma idx_Inl: "idx xs i = Inl e \<Longrightarrow> e = Panic"
  by (simp add: idx_def split: if_splits)

text \<open>
  C1. What the code does with running status: when the track is not at its end and
  the byte after the delta time has its high bit clear, \<open>NextEvent\<close> panics, whatever
  status byte is stored for the track. The test of the stored status,
  \<open>m.trackStatus[track]&0x80 == 1\<close>, compares a value that is 0 or 128 with 1, so the
  branch that reuses the status is never taken.
\<close>

theorem NextEvent_running_status_panics:
  assumes "trackPointers m ! nat track - trackOffsets m ! nat track < trackLengths m ! nat track"
    and "readVariableLength (rawData m) (trackPointers m ! nat track) = Inr (ticks, bitIndex)"
    and "byteAt (rawData m) bitIndex = Inr c"
    and "c AND 0x80 = 0"
  shows "NextEvent m track = Inl Panic"
  using assms
  by (auto simp: NextEvent_def decodeEvent_def classify_data_byte
      split: sum.splits dest!: idx_Inr idx_Inl)

theorem NextEvent_running_status_panics_witness:
  "Read bufA = Inr stateA
   \<and> nextEvents stateA 0 2 =
       Inr (stateA2, [(0, Some [0xFF, 0x51, 0x03, 0x07, 0xA1, 0x20]), (480, Some [0x90, 0x3C, 0x40])])
   \<and> trackStatus stateA2 = [0x90]
   \<and> byteAt (rawData stateA2) 35 = Inr 0x3E
   \<and> NextEvent stateA2 0 = Inl Panic"
proof -
  have 1: "trackPointers stateA2 ! nat 0 - trackOffsets stateA2 ! nat 0 < trackLengths stateA2 ! nat 0"
    by (simp add: stateA2_def stateA1_def stateA_def)
  have 2: "readVariableLength (rawData stateA2) (trackPointers stateA2 ! nat 0) = Inr (0, 35)"
    by code_simp
  have 3: "byteAt (rawData stateA2) 35 = Inr 0x3E"
    by code_simp
  have 4: "(0x3E :: byte) AND 0x80 = 0"
    by simp
  have 5: "nextEvents stateA 0 2 =
       Inr (stateA2, [(0, Some [0xFF, 0x51, 0x03, 0x07, 0xA1, 0x20]), (480, Some [0x90, 0x3C, 0x40])])"
    by (simp add: numeral_2_eq_2 NextEvent_stateA NextEvent_stateA1)
  have 6: "trackStatus stateA2 = [0x90]"
    by (simp add: stateA2_def)
  from NextEvent_running_status_panics [OF 1 2 3 4] Read_bufA 3 5 6 show ?thesis
    by simp
qed

section \<open>System exclusive events\<close>

lemma classify_F0:
  "classify raw format status bitIndex 0xF0 =
     Inr \<lparr>hStatus = 0xF0, hEvent = [0xF0], hBitIndex = bitIndex, hRest = 2, hTempo = False\<rparr>"
  by (simp add: classify_def)

lemma classify_F7:
  "classify raw format status bitIndex 0xF7 =
     (case readLength raw bitIndex of
        Inl e \<Rightarrow> Inl e
      | Inr b \<Rightarrow>
          Inr \<lparr>hStatus = 0, hEvent = [0xF7], hBitIndex = bitIndex, hRest = b, hTempo = False\<rparr>)"
  by (simp add: classify_def)

lemma readRest_two:
  "readRest raw 2 i ev = Inr (j, ev') \<Longrightarrow>
     j = i + 2 \<and> ev' = ev @ [store raw ! nat i, store raw ! nat (i + 1)]"
  by (auto simp: numeral_2_eq_2 split: sum.splits dest!: byteAt_Inr)

text \<open>
  C2. What the code does with the status byte \<open>0xF0\<close>: the case expression
  \<open>0xF0 | 0xF1 | ... | 0xF7\<close> is the single value \<open>0xF7\<close>, so \<open>0xF0\<close> falls to the
  channel event branch. Whenever \<open>NextEvent\<close> returns an event whose status byte (the
  byte after the delta time) is \<open>0xF0\<close>, the stored running status of the track is
  \<open>0xF0\<close>, and the event is \<open>0xF0\<close> with the two bytes that follow it: no length is
  decoded.
\<close>

theorem NextEvent_F0_sets_running_status:
  assumes ne: "NextEvent m track = Inr (m', ticks', Some ev)"
    and vl: "readVariableLength (rawData m) (trackPointers m ! nat track) = Inr (ticks, i)"
    and c: "byteAt (rawData m) i = Inr 0xF0"
  shows "trackStatus m' ! nat track = 0xF0
         \<and> ev = [0xF0, store (rawData m) ! nat (i + 1), store (rawData m) ! nat (i + 2)]
         \<and> trackPointers m' ! nat track = i + 3 \<and> ticks' = ticks"
proof -
  from ne obtain pointer status h m1 where
    p: "idx (trackPointers m) track = Inr pointer"
    and s: "idx (trackStatus m) track = Inr status"
    and d: "decodeEvent (rawData m) (Format m) status pointer = Inr (ticks', h)"
    and u: "updateRate (m\<lparr>trackStatus := (trackStatus m)[nat track := hStatus h]\<rparr>)
              track ticks' (hTempo h) (hEvent h) = Inr m1"
    and m': "m' = m1\<lparr>trackPointers := (trackPointers m1)[nat track := hBitIndex h]\<rparr>"
    and ev: "ev = hEvent h"
    unfolding NextEvent_def by (auto split: sum.splits if_splits prod.splits)
  from idx_Inr [OF p] have pointer: "pointer = trackPointers m ! nat track"
    and tr: "nat track < length (trackPointers m)" by simp_all
  from idx_Inr [OF s] have trs: "nat track < length (trackStatus m)" by simp
  from d vl c pointer obtain j e where
    r: "readRest (rawData m) 2 (i + 1) [0xF0] = Inr (j, e)"
    and h: "h = \<lparr>hStatus = 0xF0, hEvent = e, hBitIndex = j, hRest = 2, hTempo = False\<rparr>"
    and t: "ticks' = ticks"
    unfolding decodeEvent_def by (auto simp: classify_F0 split: sum.splits)
  from readRest_two [OF r] have j: "j = i + 3"
    and e: "e = [0xF0, store (rawData m) ! nat (i + 1), store (rawData m) ! nat (i + 2)]"
    by (simp_all add: add.assoc)
  from updateRate_frame [OF u] have "trackStatus m1 = (trackStatus m)[nat track := hStatus h]"
    and "length (trackPointers m1) = length (trackPointers m)"
    by (simp_all add: sameFrame_def)
  with m' h j e ev t tr trs show ?thesis by simp
qed

theorem NextEvent_F0_sets_running_status_witness:
  "Read bufS = Inr stateS
   \<and> NextEvent stateS 0 =
       Inr (stateS\<lparr>trackPointers := [26], trackStatus := [0xF0]\<rparr>, 0, Some [0xF0, 0x03, 0x01])
   \<and> trackStatus (stateS\<lparr>trackPointers := [26], trackStatus := [0xF0]\<rparr>) ! nat 0 = 0xF0"
proof -
  have 1: "NextEvent stateS 0 =
       Inr (stateS\<lparr>trackPointers := [26], trackStatus := [0xF0]\<rparr>, 0, Some [0xF0, 0x03, 0x01])"
    by code_simp
  have 2: "readVariableLength (rawData stateS) (trackPointers stateS ! nat 0) = Inr (0, 23)"
    by code_simp
  have 3: "byteAt (rawData stateS) 23 = Inr 0xF0"
    by code_simp
  from NextEvent_F0_sets_running_status [OF 1 2 3] Read_bufS 1 show ?thesis
    by simp
qed

section \<open>Tempo events\<close>

lemma readRest_prefix:
  "readRest raw n i ev = Inr (j, ev') \<Longrightarrow> take (length ev) ev' = ev"
proof (induction n arbitrary: i ev)
  case 0
  then show ?case by simp
next
  case (Suc n)
  from Suc.prems obtain c where rec: "readRest raw n (i + 1) (ev @ [c]) = Inr (j, ev')"
    by (auto split: sum.splits)
  from Suc.IH [OF rec] have "take (length ev) (take (length (ev @ [c])) ev') = take (length ev) (ev @ [c])"
    by simp
  then show ?case by (simp add: min_def)
qed

lemma classify_meta:
  assumes "classify raw format status bitIndex c = Inr h" and "hEvent h ! 0 = 0xFF"
  shows "length (hEvent h) = 2 \<and> hTempo h = (format \<noteq> 1 \<and> hEvent h ! 1 = 0x51)"
proof (cases "c = 0xFF")
  case True
  with assms(1) show ?thesis
    by (auto simp: classify_def split: sum.splits)
next
  case False
  with assms have False
    by (auto simp: classify_def status_test_false split: sum.splits if_splits)
  then show ?thesis ..
qed

lemma tempoValue_Inr:
  "tempoValue event = Inr v \<Longrightarrow> 6 \<le> length event \<and> v = event ! 5"
  unfolding tempoValue_def
  by (auto split: sum.splits dest!: idx_Inr)

lemma spec_tempoMicros_mod: "spec_tempoMicros event mod 256 = unat (event ! 5)"
proof -
  have "unat (event ! 5) < 2 ^ LENGTH(8)" by (rule unsigned_less)
  then have lt: "unat (event ! 5) < 256" by simp
  have "spec_tempoMicros event =
          256 * (256 * unat (event ! 3) + unat (event ! 4)) + unat (event ! 5)"
    by (simp add: spec_tempoMicros_def)
  then have "spec_tempoMicros event mod 256 = unat (event ! 5) mod 256"
    by (simp only: mod_mult_self4)
  with lt show ?thesis by simp
qed

text \<open>
  C4. What the code does with a tempo event of a file that does not use time code and is
  not of format 1 (the files whose tempo events are marked): the new rate of the track is
  \<open>0.000001 * value / tickrate\<close> with \<open>tickrate = Division & 0x7FFF\<close>, but
  \<open>value\<close> is computed in byte arithmetic (\<open>event[3]<<16 + event[4]<<8 + event[5]\<close>
  on \<open>uint8\<close> operands), so it is the last payload byte only: the payload's integer
  modulo 256.
\<close>

theorem NextEvent_tempo_rate:
  assumes ne: "NextEvent m track = Inr (m', ticks, Some ev)"
    and tc: "\<not> UsingTimeCode m" and fmt: "Format m \<noteq> 1"
    and meta: "ev ! 0 = 0xFF" and tempo: "ev ! 1 = 0x51"
  shows "6 \<le> length ev
         \<and> tickSeconds m' ! nat track =
             fdiv (0.000001 * real (spec_tempoMicros ev mod 256))
                  (real_of_int (Division m AND 0x7FFF))"
proof -
  from ne obtain pointer status h m1 where
    d: "decodeEvent (rawData m) (Format m) status pointer = Inr (ticks, h)"
    and u: "updateRate (m\<lparr>trackStatus := (trackStatus m)[nat track := hStatus h]\<rparr>)
              track ticks (hTempo h) (hEvent h) = Inr m1"
    and m': "m' = m1\<lparr>trackPointers := (trackPointers m1)[nat track := hBitIndex h]\<rparr>"
    and ev: "ev = hEvent h"
    unfolding NextEvent_def by (auto split: sum.splits if_splits prod.splits)
  from d obtain i c h0 j e where
    k: "classify (rawData m) (Format m) status (i + 1) c = Inr h0"
    and r0: "readRest (rawData m) (nat (sint (hRest h0))) (hBitIndex h0) (hEvent h0) = Inr (j, e)"
    and h: "h = h0\<lparr>hBitIndex := j, hEvent := e\<rparr>"
    unfolding decodeEvent_def by (auto split: sum.splits prod.splits)
  from h ev have e: "e = ev" by simp
  note r = r0 [unfolded e]
  from classify_result [OF k] have ne0: "hEvent h0 \<noteq> []" by simp
  from readRest_prefix [OF r] have pre: "take (length (hEvent h0)) ev = hEvent h0" .
  from ne0 have "0 < length (hEvent h0)" by simp
  from nth_take [OF this, of ev] pre have "hEvent h0 ! 0 = ev ! 0" by simp
  with meta have "hEvent h0 ! 0 = 0xFF" by simp
  from classify_meta [OF k this] have l2: "length (hEvent h0) = 2"
    and ht: "hTempo h0 = (Format m \<noteq> 1 \<and> hEvent h0 ! 1 = 0x51)" by simp_all
  from l2 have "1 < length (hEvent h0)" by simp
  from nth_take [OF this, of ev] pre have "hEvent h0 ! 1 = ev ! 1" by simp
  with ht fmt tempo h have tm: "hTempo h" by simp
  note ev' = ev [symmetric]
  from u tm tc ev' obtain m2 where
    s2: "setTempo (m\<lparr>trackStatus := (trackStatus m)[nat track := hStatus h]\<rparr>) track ev = Inr m2"
    and f2: "(if Format m2 = 1 then followTempoMap m2 track ticks else Inr m2) = Inr m1"
    by (simp add: updateRate_def split: sum.splits)
  from setTempo_frame [OF s2] fmt have "Format m2 \<noteq> 1" by (simp add: sameFrame_def)
  with f2 have "m2 = m1" by simp
  with s2 have
    st: "setTempo (m\<lparr>trackStatus := (trackStatus m)[nat track := hStatus h]\<rparr>) track ev = Inr m1"
    by simp
  from st obtain v ts where v: "tempoValue ev = Inr v"
    and ts: "upd (tickSeconds m) track (fdiv (0.000001 * real (unat v)) (real_of_int (Division m AND 0x7FFF))) = Inr ts"
    and m1: "tickSeconds m1 = ts"
    unfolding setTempo_def by (auto simp: Let_def split: sum.splits)
  from tempoValue_Inr [OF v] upd_Inr [OF ts] m1 m' show ?thesis
    by (simp add: spec_tempoMicros_mod)
qed

theorem NextEvent_tempo_rate_witness:
  "NextEvent stateA 0 = Inr (stateA1, 0, Some [0xFF, 0x51, 0x03, 0x07, 0xA1, 0x20])
   \<and> Division stateA = 480
   \<and> spec_tempoMicros [0xFF, 0x51, 0x03, 0x07, 0xA1, 0x20] = 500000
   \<and> tickSeconds stateA1 ! nat 0 = Finite (32 * 0.000001 / 480)
   \<and> tickSeconds stateA1 ! nat 0 \<noteq> Finite (500000 * 0.000001 / 480)"
proof -
  have 1: "\<not> UsingTimeCode stateA" "Format stateA \<noteq> 1" "Division stateA = 480"
    by (simp_all add: stateA_def)
  have 2: "[0xFF, 0x51, 0x03, 0x07, 0xA1, 0x20 :: byte] ! 0 = 0xFF"
    "[0xFF, 0x51, 0x03, 0x07, 0xA1, 0x20 :: byte] ! 1 = 0x51"
    by simp_all
  have 3: "spec_tempoMicros [0xFF, 0x51, 0x03, 0x07, 0xA1, 0x20] = 500000"
    by (simp add: spec_tempoMicros_def)
  from NextEvent_tempo_rate [OF NextEvent_stateA 1(1) 1(2) 2] 1(3) 3 NextEvent_stateA
  show ?thesis by (simp add: fdiv_def)
qed

section \<open>Invariants of a parsed file\<close>

lemma NextEvent_pointers:
  assumes "NextEvent m track = Inr (m', ticks, Some ev)"
  shows "trackPointers m' = (trackPointers m)[nat track := trackPointers m' ! nat track]"
proof -
  from assms obtain pointer status h m1 where
    p: "idx (trackPointers m) track = Inr pointer"
    and d: "decodeEvent (rawData m) (Format m) status pointer = Inr (ticks, h)"
    and u: "updateRate (m\<lparr>trackStatus := (trackStatus m)[nat track := hStatus h]\<rparr>)
              track ticks (hTempo h) (hEvent h) = Inr m1"
    and m': "m' = m1\<lparr>trackPointers := (trackPointers m1)[nat track := hBitIndex h]\<rparr>"
    and ev: "ev = hEvent h"
    unfolding NextEvent_def by (auto split: sum.splits if_splits prod.splits)
  from NextEvent_Some [OF assms] have "nat track < length (trackPointers m)" by simp
  with updateRate_frame [OF u] m' show ?thesis by simp
qed

lemma wf_NextEvent:
  assumes "wf m" and "NextEvent m track = Inr (m', ticks, event)"
  shows "wf m' \<and> sameFrame m m'"
proof (cases event)
  case None
  with assms NextEvent_None [of m track m' ticks] show ?thesis
    by (simp add: sameFrame_refl)
next
  case (Some ev)
  with assms have ne: "NextEvent m track = Inr (m', ticks, Some ev)" by simp
  note s = NextEvent_Some [OF ne] and p = NextEvent_pointers [OF ne]
  from s have fr: "sameFrame m m'" by simp
  from assms(1) s have "trackOffsets m ! nat track \<le> trackPointers m ! nat track"
    by (simp add: wf_def list_all2_conv_all_nth)
  with s have "trackOffsets m ! nat track \<le> trackPointers m' ! nat track" by simp
  with assms(1) s
  have "list_all2 (\<lambda>offset pointer. offset \<le> pointer \<and> pointer \<le> cap (rawData m))
           (trackOffsets m) ((trackPointers m)[nat track := trackPointers m' ! nat track])"
    by (simp add: wf_def list_all2_conv_all_nth nth_list_update)
  with p fr assms(1) show ?thesis
    by (simp add: wf_def sameFrame_def)
qed

lemma wf_RewindTrack:
  assumes "wf m" and "RewindTrack m track = Inr m'"
  shows "wf m' \<and> sameFrame m m'"
proof -
  from assms(2) obtain offset ps st t0 ts where
    o: "idx (trackOffsets m) track = Inr offset"
    and ps: "upd (trackPointers m) track offset = Inr ps"
    and st: "upd (trackStatus m) track 0 = Inr st"
    and t0: "idx (tempoEvents m) 0 = Inr t0"
    and ts: "upd (tickSeconds m) track (TickSeconds t0) = Inr ts"
    and m': "m' = m\<lparr>trackPointers := ps, trackStatus := st, tickSeconds := ts\<rparr>"
    unfolding RewindTrack_def by (auto split: sum.splits if_splits)
  note o' = idx_Inr [OF o] and ps' = upd_Inr [OF ps] and st' = upd_Inr [OF st]
    and ts' = upd_Inr [OF ts]
  from assms(1) o' have "trackOffsets m ! nat track \<le> trackPointers m ! nat track
      \<and> trackPointers m ! nat track \<le> cap (rawData m)"
    by (simp add: wf_def list_all2_conv_all_nth)
  then have "trackOffsets m ! nat track \<le> cap (rawData m)" by simp
  with assms(1) o'
  have "list_all2 (\<lambda>offset pointer. offset \<le> pointer \<and> pointer \<le> cap (rawData m))
           (trackOffsets m) ((trackPointers m)[nat track := trackOffsets m ! nat track])"
    by (simp add: wf_def list_all2_conv_all_nth nth_list_update)
  with o' ps' st' ts' m' assms(1) show ?thesis
    by (simp add: wf_def sameFrame_def)
qed

lemma wf_midiLoop:
  "wf m \<Longrightarrow> midiLoop m track ticks midiEvent = Inr (m', ticks', event') \<Longrightarrow>
     wf m' \<and> sameFrame m m'"
proof (induction m track ticks midiEvent rule: midiLoop.induct)
  case (1 m track ticks midiEvent)
  note unf = midiLoop.simps [of m track ticks midiEvent]
  show ?case
  proof (cases midiEvent)
    case None
    with "1.prems" unf show ?thesis by (simp add: sameFrame_refl)
  next
    case (Some ev)
    show ?thesis
    proof (cases "idx ev 0")
      case (Inl e)
      with "1.prems" unf Some show ?thesis by simp
    next
      case (Inr c)
      show ?thesis
      proof (cases "c < 0xF0")
        case True
        with "1.prems" unf Some Inr show ?thesis by (simp add: sameFrame_refl)
      next
        case False
        with "1.prems" unf Some Inr obtain m1 t1 e1 where
          ne: "NextEvent m track = Inr (m1, t1, e1)"
          and rec: "midiLoop m1 track t1 e1 = Inr (m', ticks', event')"
          by (auto split: sum.splits)
        from wf_NextEvent [OF "1.prems"(1) ne] have w1: "wf m1" and f1: "sameFrame m m1"
          by simp_all
        from "1.IH" [OF Some Inr False ne refl refl w1 rec]
        have "wf m'" and "sameFrame m1 m'" by simp_all
        with f1 show ?thesis by (blast intro: sameFrame_trans)
      qed
    qed
  qed
qed

lemma wf_NextMIDIEvent:
  assumes "wf m" and "NextMIDIEvent m track = Inr (m', ticks, event)"
  shows "wf m' \<and> sameFrame m m'"
proof -
  from assms(2) obtain m1 t1 e1 where
    ne: "NextEvent m track = Inr (m1, t1, e1)"
    and l: "midiLoop m1 track t1 e1 = Inr (m', ticks, event)"
    unfolding NextMIDIEvent_def by (auto split: if_splits sum.splits)
  from wf_NextEvent [OF assms(1) ne] have w1: "wf m1" and f1: "sameFrame m m1" by simp_all
  from wf_midiLoop [OF w1 l] have "wf m'" and "sameFrame m1 m'" by simp_all
  with f1 show ?thesis by (blast intro: sameFrame_trans)
qed

lemma wf_step:
  assumes "wf m" and "step m c = Inr m'"
  shows "wf m' \<and> sameFrame m m'"
proof (cases c)
  case (CallNextEvent track)
  with assms(2) obtain ticks event where "NextEvent m track = Inr (m', ticks, event)"
    by (auto split: sum.splits)
  from wf_NextEvent [OF assms(1) this] show ?thesis .
next
  case (CallNextMIDIEvent track)
  with assms(2) obtain ticks event where "NextMIDIEvent m track = Inr (m', ticks, event)"
    by (auto split: sum.splits)
  from wf_NextMIDIEvent [OF assms(1) this] show ?thesis .
next
  case (CallRewindTrack track)
  with assms(2) have "RewindTrack m track = Inr m'" by simp
  from wf_RewindTrack [OF assms(1) this] show ?thesis .
qed

lemma wf_run:
  "wf m \<Longrightarrow> run m cs = Inr m' \<Longrightarrow> wf m' \<and> sameFrame m m'"
proof (induction cs arbitrary: m)
  case Nil
  then show ?case by (simp add: sameFrame_refl)
next
  case (Cons c cs)
  from Cons.prems(2) obtain m1 where s: "step m c = Inr m1" and r: "run m1 cs = Inr m'"
    by (auto split: sum.splits)
  from wf_step [OF Cons.prems(1) s] have w1: "wf m1" and f1: "sameFrame m m1" by simp_all
  from Cons.IH [OF w1 r] have "wf m'" and "sameFrame m1 m'" by simp_all
  with f1 show ?case by (blast intro: sameFrame_trans)
qed

section \<open>The file that Read returns\<close>

lemma slice_Inr: "slice b lo hi = Inr bs \<Longrightarrow> 0 \<le> lo \<and> lo \<le> hi \<and> hi \<le> cap b"
  by (simp add: slice_def split: if_splits)

lemma indexTracks_result:
  "indexTracks b n i = Inr tracks \<Longrightarrow>
     length tracks = n \<and> list_all (\<lambda>(len, off). 0 \<le> off \<and> off \<le> cap b) tracks"
proof (induction n arbitrary: i tracks)
  case 0
  then show ?case by simp
next
  case (Suc n)
  from Suc.prems obtain ct lb rest where
    s1: "slice b i (i + 4) = Inr ct" and s2: "slice b (i + 4) (i + 8) = Inr lb"
    and rec: "indexTracks b n (i + 8 + beInt32 lb) = Inr rest"
    and tr: "tracks = (beInt32 lb, i + 8) # rest"
    by (auto split: sum.splits if_splits)
  from slice_Inr [OF s1] slice_Inr [OF s2] Suc.IH [OF rec] tr show ?case by simp
qed

lemma sameFrame_sameCore: "sameFrame m m' \<Longrightarrow> sameCore m m'"
  by (simp add: sameFrame_def sameCore_def)

lemma sameCore_trans: "sameCore a b \<Longrightarrow> sameCore b c \<Longrightarrow> sameCore a c"
  by (simp add: sameCore_def)

lemma NextEvent_timecode:
  assumes "UsingTimeCode m" and "NextEvent m track = Inr (m', ticks, event)"
  shows "tickSeconds m' = tickSeconds m \<and> tempoEvents m' = tempoEvents m \<and> UsingTimeCode m'"
  using assms unfolding NextEvent_def updateRate_def
  by (auto split: sum.splits if_splits prod.splits)

lemma wf_recordTempo:
  assumes "wf m" and "recordTempo m tickrate count event = Inr m'"
  shows "wf m' \<and> sameCore m m' \<and> tickSeconds m' = tickSeconds m
         \<and> UsingTimeCode m' = UsingTimeCode m"
  using assms unfolding recordTempo_def wf_def sameCore_def
  by (auto simp: Let_def split: sum.splits if_splits)

lemma tempoLoop_result:
  "wf m \<Longrightarrow> UsingTimeCode m \<Longrightarrow> tempoLoop m tickrate count event = Inr m' \<Longrightarrow>
     wf m' \<and> sameCore m m' \<and> tickSeconds m' = tickSeconds m"
proof (induction m tickrate count event rule: tempoLoop.induct)
  case (1 m tickrate count event)
  note unf = tempoLoop.simps [of m tickrate count event]
  show ?case
  proof (cases event)
    case None
    with "1.prems" unf show ?thesis by (simp add: sameCore_def)
  next
    case (Some ev)
    let ?r = "if length ev = 6 \<and> ev ! 0 = 0xFF \<and> ev ! 1 = 0x51 \<and> ev ! 2 = 0x03
                 then recordTempo m tickrate count ev else Inr m"
    from "1.prems"(3) unf Some obtain m1 m2 countNew event' where
      r: "?r = Inr m1"
      and ne: "NextEvent m1 0 = Inr (m2, countNew, event')"
      and rec: "tempoLoop m2 tickrate (count + countNew) event' = Inr m'"
      by (auto split: sum.splits)
    from r "1.prems"(1,2) have w1: "wf m1" and c1: "sameCore m m1"
      and t1: "tickSeconds m1 = tickSeconds m" and u1: "UsingTimeCode m1"
      by (auto simp: sameCore_def split: if_splits dest: wf_recordTempo)
    from wf_NextEvent [OF w1 ne] have w2: "wf m2" and c2: "sameCore m1 m2"
      by (simp_all add: sameFrame_sameCore)
    from NextEvent_timecode [OF u1 ne] have t2: "tickSeconds m2 = tickSeconds m1"
      and u2: "UsingTimeCode m2" by simp_all
    from "1.IH" [OF Some r ne refl refl w2 u2 rec]
    have "wf m'" and "sameCore m2 m'" and "tickSeconds m' = tickSeconds m2" by simp_all
    with c1 c2 t1 t2 show ?thesis by (simp add: sameCore_def)
  qed
qed

lemma buildTempoMap_result:
  assumes w: "wf m" and b: "buildTempoMap m tickrate = Inr m'"
  shows "wf m' \<and> sameCore m m' \<and> \<not> UsingTimeCode m'
         \<and> tickSeconds m' = (tickSeconds m)[0 := TickSeconds (tempoEvents m' ! 0)]"
proof -
  from b obtain m1 count event m2 m3 where
    ne: "NextEvent (m\<lparr>UsingTimeCode := True\<rparr>) 0 = Inr (m1, count, event)"
    and tl: "tempoLoop m1 tickrate count event = Inr m2"
    and rw: "RewindTrack m2 0 = Inr m3"
    and m': "m' = m3\<lparr>trackCounters := replicate (nat (NumTracks m3)) 0,
                     trackTempoIndex := replicate (nat (NumTracks m3)) 0,
                     UsingTimeCode := False\<rparr>"
    unfolding buildTempoMap_def by (auto split: sum.splits)
  let ?m0 = "m\<lparr>UsingTimeCode := True\<rparr>"
  from w have w0: "wf ?m0" by (simp add: wf_def)
  have u0: "UsingTimeCode ?m0" by simp
  from wf_NextEvent [OF w0 ne] have w1: "wf m1" and c1: "sameCore ?m0 m1"
    by (simp_all add: sameFrame_sameCore)
  from NextEvent_timecode [OF u0 ne] have t1: "tickSeconds m1 = tickSeconds m"
    and u1: "UsingTimeCode m1" by simp_all
  from tempoLoop_result [OF w1 u1 tl] have w2: "wf m2" and c2: "sameCore m1 m2"
    and t2: "tickSeconds m2 = tickSeconds m1" by simp_all
  from wf_RewindTrack [OF w2 rw] have w3: "wf m3" and f3: "sameFrame m2 m3" by simp_all
  from rw obtain t0 ts where i0: "idx (tempoEvents m2) 0 = Inr t0"
    and ts: "upd (tickSeconds m2) 0 (TickSeconds t0) = Inr ts"
    and t3: "tickSeconds m3 = ts"
    unfolding RewindTrack_def by (auto split: sum.splits if_splits)
  from idx_Inr [OF i0] upd_Inr [OF ts] t3 f3
  have t3': "tickSeconds m3 = (tickSeconds m2)[0 := TickSeconds (tempoEvents m3 ! 0)]"
    by (simp add: sameFrame_def)
  from w3 m' have "wf m'" by (simp add: wf_def)
  moreover from c1 c2 f3 m' have "sameCore m m'" by (simp add: sameCore_def sameFrame_def)
  moreover from m' have "\<not> UsingTimeCode m'" by simp
  moreover from t3' t2 t1 m'
  have "tickSeconds m' = (tickSeconds m)[0 := TickSeconds (tempoEvents m' ! 0)]" by simp
  ultimately show ?thesis by simp
qed

lemma tickRate_timeCode: "snd (tickRate division) = (division AND 0x8000 > 0)"
  by (simp add: tickRate_def Let_def)

lemma wf_newFile:
  assumes "indexTracks b (nat n) 14 = Inr tracks" and "0 \<le> n"
  shows "wf ((newFile b fmt n d tracks)\<lparr>tempoEvents := [t]\<rparr>)"
proof -
  from indexTracks_result [OF assms(1)] have l: "length tracks = nat n"
    and a: "list_all (\<lambda>(len, off). 0 \<le> off \<and> off \<le> cap b) tracks" by simp_all
  from a have "list_all2 (\<lambda>offset pointer. offset \<le> pointer \<and> pointer \<le> cap b)
                 (map snd tracks) (map snd tracks)"
    by (simp add: list_all2_conv_all_nth list_all_length case_prod_beta)
  with l assms(2) show ?thesis
    by (simp add: wf_def newFile_def split: prod.splits)
qed

lemma newFile_fields:
  "NumTracks (newFile b fmt n d tracks) = n" "Format (newFile b fmt n d tracks) = fmt"
  "Division (newFile b fmt n d tracks) = d" "rawData (newFile b fmt n d tracks) = b"
  "UsingTimeCode (newFile b fmt n d tracks) = snd (tickRate d)"
  "tickSeconds (newFile b fmt n d tracks) = map (\<lambda>_. initialRate d) tracks"
  "tempoEvents (newFile b fmt n d tracks) = []"
  by (simp_all add: newFile_def initialRate_def split: prod.splits)

lemma parsed_plain:
  assumes it: "indexTracks b (nat n) 14 = Inr tracks" and n: "\<not> n < 0"
    and t0: "idx (map (\<lambda>_. initialRate d) tracks) 0 = Inr t0"
    and np: "fmt \<noteq> 1 \<or> snd (tickRate d)"
  shows "parsed b ((newFile b fmt n d tracks)\<lparr>tempoEvents := [\<lparr>Count = 0, TickSeconds = t0\<rparr>]\<rparr>)"
proof -
  from n have n': "0 \<le> n" by simp
  from indexTracks_result [OF it] have l: "length tracks = nat n" by simp
  from idx_Inr [OF t0] l have pos: "0 < n" and t0': "t0 = initialRate d" by simp_all
  from wf_newFile [OF it n'] pos l t0' np show ?thesis
    by (simp add: parsed_def newFile_fields tickRate_timeCode)
qed

lemma parsed_tempoMap:
  assumes bt: "buildTempoMap
      ((newFile b 1 n d tracks)\<lparr>tempoEvents := [\<lparr>Count = 0, TickSeconds = t0\<rparr>]\<rparr>) r = Inr m"
    and it: "indexTracks b (nat n) 14 = Inr tracks" and n: "\<not> n < 0"
    and t0: "idx (map (\<lambda>_. initialRate d) tracks) 0 = Inr t0"
    and tc: "\<not> snd (tickRate d)"
  shows "parsed b m"
proof -
  let ?m0 = "(newFile b 1 n d tracks)\<lparr>tempoEvents := [\<lparr>Count = 0, TickSeconds = t0\<rparr>]\<rparr>"
  from n have n': "0 \<le> n" by simp
  from indexTracks_result [OF it] have l: "length tracks = nat n" by simp
  from idx_Inr [OF t0] l have pos: "0 < n" by simp
  have w0: "wf ?m0" by (rule wf_newFile [OF it n'])
  from buildTempoMap_result [OF w0 bt] have w: "wf m" and c: "sameCore ?m0 m"
    and u: "\<not> UsingTimeCode m"
    and ts: "tickSeconds m = (tickSeconds ?m0)[0 := TickSeconds (tempoEvents m ! 0)]"
    by simp_all
  from c have f: "NumTracks m = n" "Division m = d" "rawData m = b" "Format m = 1"
    by (simp_all add: sameCore_def newFile_fields)
  from tc f u have "UsingTimeCode m = (Division m AND 0x8000 > 0)"
    by (simp add: tickRate_timeCode)
  moreover from ts l pos have "tickSeconds m ! 0 = TickSeconds (tempoEvents m ! 0)"
    by (simp add: newFile_fields)
  moreover from ts l f have
    "\<forall>t < nat (NumTracks m). 0 < t \<longrightarrow> tickSeconds m ! t = initialRate (Division m)"
    by (simp add: newFile_fields)
  moreover note w f pos u
  ultimately show ?thesis by (auto simp: parsed_def)
qed

lemma Read_result:
  assumes "Read b = Inr m"
  shows "parsed b m"
  using assms unfolding Read_def parseRawData_def
  by (auto simp: Let_def newFile_fields split: sum.splits if_splits
      intro: parsed_plain parsed_tempoMap)

section \<open>The initial rate\<close>

lemma initialRate_quarter:
  "division AND 0x8000 = 0 \<Longrightarrow>
     initialRate division = fdiv 0.5 (real_of_int (division AND 0x00FF))"
  by (simp add: initialRate_def tickRate_def)

text \<open>
  C5. What the code does for a division field with bit 15 clear: every track of the
  parsed file, but track 0 of a format 1 file (which is rewound to entry 0 of the tempo
  map), starts at the rate \<open>0.5 / tickrate\<close> where \<open>tickrate\<close> is
  \<open>Division & 0x00FF\<close> (line 135), the low byte of the division and not the whole
  ticks-per-quarter-note count that \<open>NextEvent\<close> uses (\<open>Division & 0x7FFF\<close>,
  line 323).
\<close>

theorem Read_initial_rate:
  assumes rd: "Read b = Inr m"
    and bit15: "Division m AND 0x8000 = 0"
    and tr: "0 \<le> track" "track < NumTracks m"
    and nz: "0 < track \<or> Format m \<noteq> 1"
  shows "TickSeconds_of m track = Inr (fdiv 0.5 (real_of_int (Division m AND 0x00FF)))"
proof -
  from Read_result [OF rd] have w: "wf m"
    and r: "\<forall>t < nat (NumTracks m). 0 < t \<or> Format m \<noteq> 1 \<or> UsingTimeCode m \<longrightarrow>
              tickSeconds m ! t = initialRate (Division m)"
    by (simp_all add: parsed_def)
  from tr have t: "nat track < nat (NumTracks m)" by simp
  from nz tr have "0 < nat track \<or> Format m \<noteq> 1" by auto
  with r t have "tickSeconds m ! nat track = initialRate (Division m)" by blast
  with w tr t bit15 show ?thesis
    by (simp add: TickSeconds_of_def idx_def wf_def initialRate_quarter)
qed

theorem Read_initial_rate_witness:
  "Read bufA = Inr stateA \<and> Division stateA = 480
   \<and> TickSeconds_of stateA 0 = Inr (Finite (0.5 / 224))
   \<and> TickSeconds_of stateA 0 \<noteq> Inr (Finite (0.5 / 480))"
proof -
  have 1: "Division stateA AND 0x8000 = 0" "(0::int) \<le> 0" "0 < NumTracks stateA"
    "0 < (0::int) \<or> Format stateA \<noteq> 1" "Division stateA = 480"
    by (simp_all add: stateA_def)
  from Read_initial_rate [OF Read_bufA 1(1) 1(2) 1(3) 1(4)] 1(5) Read_bufA
  show ?thesis by (simp add: fdiv_def)
qed

section \<open>RewindTrack\<close>

lemma Read_bufB: "Read bufB = Inr stateB"
  by code_simp

lemma sameFrame_fields:
  "sameFrame m m' \<Longrightarrow>
     NumTracks m' = NumTracks m \<and> tempoEvents m' = tempoEvents m
     \<and> trackOffsets m' = trackOffsets m \<and> trackLengths m' = trackLengths m
     \<and> rawData m' = rawData m"
  by (simp add: sameFrame_def)

lemma RewindTrack_succeeds:
  assumes w: "wf m" and tr: "0 \<le> track" "track < NumTracks m"
  shows "RewindTrack m track =
           Inr (m\<lparr>trackPointers := (trackPointers m)[nat track := trackOffsets m ! nat track],
                  trackStatus := (trackStatus m)[nat track := 0],
                  tickSeconds := (tickSeconds m)[nat track := TickSeconds (tempoEvents m ! 0)]\<rparr>)"
proof -
  from tr have "nat track < nat (NumTracks m)" by simp
  with w tr show ?thesis
    by (simp add: RewindTrack_def idx_def upd_def wf_def)
qed

text \<open>
  C9, as amended. For a file \<open>m0\<close> that \<open>Read\<close> returned, after any sequence of
  calls of \<open>NextEvent\<close>, \<open>NextMIDIEvent\<close> and \<open>RewindTrack\<close>, and for every
  valid track index: \<open>RewindTrack\<close> succeeds and sets the cursor of the track to its
  offset, its running status to 0 and its rate to the rate of entry 0 of the tempo map,
  which no call changes. That rate is the one \<open>TickSeconds\<close> gave for the track just
  after construction when the track is track 0, or the file is not of format 1, or it
  uses time code, or entry 0 still holds the rate derived from the division (no tempo
  event at tick 0 of track 0 has replaced it).
\<close>

theorem RewindTrack_after_calls:
  assumes rd: "Read b = Inr m0" and rn: "run m0 cs = Inr m"
    and tr: "0 \<le> track" "track < NumTracks m0"
  shows "\<exists>m'. RewindTrack m track = Inr m'
           \<and> trackPointers m' ! nat track = trackOffsets m0 ! nat track
           \<and> trackStatus m' ! nat track = 0
           \<and> TickSeconds_of m' track = Inr (TickSeconds (tempoEvents m' ! 0))
           \<and> tempoEvents m' = tempoEvents m0
           \<and> (track = 0 \<or> Format m0 \<noteq> 1 \<or> UsingTimeCode m0
                \<or> TickSeconds (tempoEvents m0 ! 0) = initialRate (Division m0) \<longrightarrow>
                TickSeconds_of m' track = TickSeconds_of m0 track)"
proof -
  from Read_result [OF rd] have w0: "wf m0" and pos: "0 < NumTracks m0"
    and e0: "tickSeconds m0 ! 0 = TickSeconds (tempoEvents m0 ! 0)"
    and r: "\<forall>t < nat (NumTracks m0). 0 < t \<or> Format m0 \<noteq> 1 \<or> UsingTimeCode m0 \<longrightarrow>
              tickSeconds m0 ! t = initialRate (Division m0)"
    by (simp_all add: parsed_def)
  from wf_run [OF w0 rn] have w: "wf m" and f: "sameFrame m0 m" by simp_all
  note ff = sameFrame_fields [OF f]
  from tr ff have tr': "0 \<le> track" "track < NumTracks m" by simp_all
  from tr have t: "nat track < nat (NumTracks m0)" by simp
  let ?m' = "m\<lparr>trackPointers := (trackPointers m)[nat track := trackOffsets m ! nat track],
                  trackStatus := (trackStatus m)[nat track := 0],
                  tickSeconds := (tickSeconds m)[nat track := TickSeconds (tempoEvents m ! 0)]\<rparr>"
  have rw: "RewindTrack m track = Inr ?m'" by (rule RewindTrack_succeeds [OF w tr'])
  from w t ff have l: "nat track < length (trackPointers m)" "nat track < length (trackStatus m)"
    "nat track < length (tickSeconds m)" by (simp_all add: wf_def)
  from w0 t have l0: "nat track < length (tickSeconds m0)" by (simp add: wf_def)
  from l tr' have ts: "TickSeconds_of ?m' track = Inr (TickSeconds (tempoEvents m0 ! 0))"
    using ff by (simp add: TickSeconds_of_def idx_def)
  from l0 tr have ts0: "TickSeconds_of m0 track = Inr (tickSeconds m0 ! nat track)"
    by (simp add: TickSeconds_of_def idx_def)
  have same: "tickSeconds m0 ! nat track = TickSeconds (tempoEvents m0 ! 0)"
    if c: "track = 0 \<or> Format m0 \<noteq> 1 \<or> UsingTimeCode m0
           \<or> TickSeconds (tempoEvents m0 ! 0) = initialRate (Division m0)"
  proof (cases "track = 0")
    case True
    with e0 show ?thesis by simp
  next
    case False
    with tr have "0 < nat track" by simp
    with r t have i: "tickSeconds m0 ! nat track = initialRate (Division m0)" by blast
    show ?thesis
    proof (cases "Format m0 \<noteq> 1 \<or> UsingTimeCode m0")
      case True
      from pos have "0 < nat (NumTracks m0)" by simp
      with r True have "tickSeconds m0 ! 0 = initialRate (Division m0)" by blast
      with i e0 show ?thesis by simp
    next
      case np: False
      with c False have "TickSeconds (tempoEvents m0 ! 0) = initialRate (Division m0)"
        by blast
      with i show ?thesis by simp
    qed
  qed
  from rw l ff ts ts0 same show ?thesis by auto
qed

theorem RewindTrack_after_calls_witness:
  "run stateB [CallNextEvent 0, CallNextEvent 1] =
     Inr (stateB\<lparr>trackPointers := [29, 45], trackStatus := [0, 0x90]\<rparr>)
   \<and> (\<exists>m'. RewindTrack (stateB\<lparr>trackPointers := [29, 45], trackStatus := [0, 0x90]\<rparr>) 0 = Inr m'
         \<and> trackPointers m' ! nat 0 = 22 \<and> trackStatus m' ! nat 0 = 0
         \<and> TickSeconds_of m' 0 = Inr (Finite (1 / 3000000))
         \<and> TickSeconds_of stateB 0 = Inr (Finite (1 / 3000000)))"
proof -
  have 1: "run stateB [CallNextEvent 0, CallNextEvent 1] =
     Inr (stateB\<lparr>trackPointers := [29, 45], trackStatus := [0, 0x90]\<rparr>)"
    by code_simp
  have 2: "(0::int) \<le> 0" "0 < NumTracks stateB" by (simp_all add: stateB_def)
  have 3: "trackOffsets stateB ! nat 0 = 22"
    "tempoEvents stateB ! 0 = \<lparr>Count = 0, TickSeconds = Finite (1 / 3000000)\<rparr>"
    by (simp_all add: stateB_def)
  from RewindTrack_after_calls [OF Read_bufB 1 2] 1 3 show ?thesis
    by auto
qed

text \<open>
  C9 as stated fails for the other tracks of a format 1 file without time code whose
  track 0 has a tempo event at tick 0: the event replaces entry 0 of the tempo map, and
  only track 0 is rewound when the map is built. In \<open>bufB\<close> track 1 shows the rate
  \<open>1 / 192\<close> after construction and \<open>1 / 3000000\<close> after \<open>RewindTrack\<close>.
\<close>

theorem RewindTrack_rate_counterexample:
  "Read bufB = Inr stateB
   \<and> TickSeconds_of stateB 1 = Inr (Finite (1 / 192))
   \<and> RewindTrack stateB 1 =
       Inr (stateB\<lparr>tickSeconds := [Finite (1 / 3000000), Finite (1 / 3000000)]\<rparr>)
   \<and> TickSeconds_of (stateB\<lparr>tickSeconds := [Finite (1 / 3000000), Finite (1 / 3000000)]\<rparr>) 1 =
       Inr (Finite (1 / 3000000))
   \<and> Finite (1 / 3000000) \<noteq> Finite (1 / 192)"
proof -
  have "TickSeconds_of stateB 1 = Inr (Finite (1 / 192))" by code_simp
  moreover have "RewindTrack stateB 1 =
       Inr (stateB\<lparr>tickSeconds := [Finite (1 / 3000000), Finite (1 / 3000000)]\<rparr>)"
    by code_simp
  moreover have "TickSeconds_of (stateB\<lparr>tickSeconds := [Finite (1 / 3000000), Finite (1 / 3000000)]\<rparr>) 1 =
       Inr (Finite (1 / 3000000))" by code_simp
  ultimately show ?thesis using Read_bufB by simp
qed

section \<open>The cursor and the declared length\<close>

lemma Read_bufC: "Read bufC = Inr stateC"
  by code_simp

lemma NextEvent_at_end:
  assumes w: "wf m" and tr: "0 \<le> track" "track < NumTracks m"
    and e: "trackLengths m ! nat track \<le> trackPointers m ! nat track - trackOffsets m ! nat track"
  shows "NextEvent m track = Inr (m, 0, None)"
proof -
  from tr have "nat track < nat (NumTracks m)" by simp
  with w tr e show ?thesis
    by (simp add: NextEvent_def idx_def wf_def)
qed

lemma NextEvent_before_end:
  assumes w: "wf m" and tr: "0 \<le> track" "track < NumTracks m"
    and e: "trackPointers m ! nat track - trackOffsets m ! nat track < trackLengths m ! nat track"
    and d: "decodeEvent (rawData m) (Format m) (trackStatus m ! nat track)
              (trackPointers m ! nat track) = Inr (ticks, h)"
    and u: "updateRate (m\<lparr>trackStatus := (trackStatus m)[nat track := hStatus h]\<rparr>)
              track ticks (hTempo h) (hEvent h) = Inr m1"
  shows "NextEvent m track =
           Inr (m1\<lparr>trackPointers := (trackPointers m1)[nat track := hBitIndex h]\<rparr>,
                ticks, Some (hEvent h))
         \<and> trackPointers (m1\<lparr>trackPointers := (trackPointers m1)[nat track := hBitIndex h]\<rparr>)
               ! nat track = hBitIndex h"
proof -
  from tr have t: "nat track < nat (NumTracks m)" by simp
  from updateRate_frame [OF u] w t have "nat track < length (trackPointers m1)"
    by (simp add: wf_def sameFrame_def)
  with w tr t e d u show ?thesis
    by (simp add: NextEvent_def idx_def wf_def)
qed

text \<open>
  C6, as amended. For a file that \<open>Read\<close> returned, after any sequence of calls and
  for every valid track index, the cursor of the track lies between its offset and the
  capacity of the buffer, and offsets and lengths are the ones of the construction. The
  declared length is tested only before an event is decoded: once the cursor has
  reached or passed \<open>offset + length\<close>, \<open>NextEvent\<close> returns the end of the track
  and leaves the file as it is. While the cursor is before \<open>offset + length\<close>, the
  event at the cursor is decoded with no regard to the declared length: whenever
  its bytes can be read from the buffer (\<open>decodeEvent\<close> returns) and the update of the
  rate returns, \<open>NextEvent\<close> returns the whole event and sets the cursor just past its
  last byte, wherever that is relative to \<open>offset + length\<close>.
\<close>

theorem cursor_bounds_after_calls:
  assumes rd: "Read b = Inr m0" and rn: "run m0 cs = Inr m"
    and tr: "0 \<le> track" "track < NumTracks m0"
  shows "trackOffsets m ! nat track \<le> trackPointers m ! nat track
         \<and> trackPointers m ! nat track \<le> cap b
         \<and> trackOffsets m = trackOffsets m0 \<and> trackLengths m = trackLengths m0
         \<and> (trackLengths m ! nat track \<le> trackPointers m ! nat track - trackOffsets m ! nat track
              \<longrightarrow> NextEvent m track = Inr (m, 0, None))
         \<and> (trackPointers m ! nat track - trackOffsets m ! nat track < trackLengths m ! nat track
              \<and> decodeEvent (rawData m) (Format m) (trackStatus m ! nat track)
                   (trackPointers m ! nat track) = Inr (ticks, h)
              \<and> updateRate (m\<lparr>trackStatus := (trackStatus m)[nat track := hStatus h]\<rparr>)
                   track ticks (hTempo h) (hEvent h) = Inr m1
              \<longrightarrow> NextEvent m track =
                    Inr (m1\<lparr>trackPointers := (trackPointers m1)[nat track := hBitIndex h]\<rparr>,
                         ticks, Some (hEvent h))
                  \<and> trackPointers
                       (m1\<lparr>trackPointers := (trackPointers m1)[nat track := hBitIndex h]\<rparr>)
                       ! nat track = hBitIndex h)"
proof -
  from Read_result [OF rd] have w0: "wf m0" and b: "rawData m0 = b"
    by (simp_all add: parsed_def)
  from wf_run [OF w0 rn] have w: "wf m" and f: "sameFrame m0 m" by simp_all
  note ff = sameFrame_fields [OF f]
  from tr ff have tr': "0 \<le> track" "track < NumTracks m" by simp_all
  then have t: "nat track < nat (NumTracks m)" by simp
  from w t have "trackOffsets m ! nat track \<le> trackPointers m ! nat track
      \<and> trackPointers m ! nat track \<le> cap (rawData m)"
    by (simp add: wf_def list_all2_conv_all_nth)
  with ff b NextEvent_at_end [OF w tr'] NextEvent_before_end [OF w tr', of ticks h m1]
  show ?thesis by simp
qed

theorem cursor_bounds_after_calls_witness:
  "run stateC [] = Inr stateC
   \<and> trackPointers stateC ! nat 0 - trackOffsets stateC ! nat 0 < trackLengths stateC ! nat 0
   \<and> decodeEvent (rawData stateC) (Format stateC) (trackStatus stateC ! nat 0)
        (trackPointers stateC ! nat 0) =
       Inr (0, \<lparr>hStatus = 0x90, hEvent = [0x90, 0x3C, 0x40], hBitIndex = 26, hRest = 2,
                hTempo = False\<rparr>)
   \<and> NextEvent stateC 0 =
       Inr (stateC\<lparr>trackStatus := [0x90], trackPointers := [26]\<rparr>, 0, Some [0x90, 0x3C, 0x40])
   \<and> trackOffsets stateC ! nat 0 + trackLengths stateC ! nat 0 = 25
   \<and> run stateC [CallNextEvent 0] = Inr (stateC\<lparr>trackStatus := [0x90], trackPointers := [26]\<rparr>)
   \<and> trackPointers (stateC\<lparr>trackStatus := [0x90], trackPointers := [26]\<rparr>) ! nat 0 \<le> cap bufC
   \<and> NextEvent (stateC\<lparr>trackStatus := [0x90], trackPointers := [26]\<rparr>) 0 =
        Inr (stateC\<lparr>trackStatus := [0x90], trackPointers := [26]\<rparr>, 0, None)"
proof -
  let ?h = "\<lparr>hStatus = 0x90, hEvent = [0x90, 0x3C, 0x40], hBitIndex = 26, hRest = 2,
             hTempo = False\<rparr>"
  let ?m1 = "stateC\<lparr>trackStatus := [0x90]\<rparr>"
  let ?m = "stateC\<lparr>trackStatus := [0x90], trackPointers := [26]\<rparr>"
  have 0: "run stateC [] = Inr stateC" by simp
  have 1: "run stateC [CallNextEvent 0] = Inr ?m"
    by code_simp
  have 2: "(0::int) \<le> 0" "0 < NumTracks stateC" by (simp_all add: stateC_def)
  have 3: "trackLengths ?m ! nat 0 \<le> trackPointers ?m ! nat 0 - trackOffsets ?m ! nat 0"
    by (simp add: stateC_def)
  have 4: "trackPointers stateC ! nat 0 - trackOffsets stateC ! nat 0 < trackLengths stateC ! nat 0"
    "trackOffsets stateC ! nat 0 + trackLengths stateC ! nat 0 = 25"
    by (simp_all add: stateC_def)
  have 5: "decodeEvent (rawData stateC) (Format stateC) (trackStatus stateC ! nat 0)
        (trackPointers stateC ! nat 0) = Inr (0, ?h)"
    by code_simp
  have 6: "updateRate (stateC\<lparr>trackStatus := (trackStatus stateC)[nat 0 := hStatus ?h]\<rparr>)
             0 0 (hTempo ?h) (hEvent ?h) = Inr ?m1"
    by code_simp
  have 7: "?m1\<lparr>trackPointers := (trackPointers ?m1)[nat 0 := hBitIndex ?h]\<rparr> = ?m"
    by (simp add: stateC_def)
  from cursor_bounds_after_calls [OF Read_bufC 0 2, of 0 ?h ?m1] 4 5 6 7
  have a: "NextEvent stateC 0 = Inr (?m, 0, Some [0x90, 0x3C, 0x40])"
    by simp
  from cursor_bounds_after_calls [OF Read_bufC 1 2] 3
  have b: "trackPointers ?m ! nat 0 \<le> cap bufC" "NextEvent ?m 0 = Inr (?m, 0, None)"
    by simp_all
  from a b 0 1 4 5 show ?thesis by simp
qed

text \<open>
  C6 as stated fails: no test compares the end of an event with the declared length of
  its track. In \<open>bufC\<close> the track declares 3 bytes and its event has 4; \<open>NextEvent\<close>
  returns the whole event and leaves the cursor at 26, past \<open>offset + length = 25\<close>.
\<close>

theorem cursor_exceeds_length_counterexample:
  "Read bufC = Inr stateC
   \<and> NextEvent stateC 0 =
       Inr (stateC\<lparr>trackPointers := [26], trackStatus := [0x90]\<rparr>, 0, Some [0x90, 0x3C, 0x40])
   \<and> trackOffsets stateC ! 0 + trackLengths stateC ! 0 = 25
   \<and> \<not> trackPointers (stateC\<lparr>trackPointers := [26], trackStatus := [0x90]\<rparr>) ! 0
         \<le> trackOffsets stateC ! 0 + trackLengths stateC ! 0"
proof -
  have "NextEvent stateC 0 =
       Inr (stateC\<lparr>trackPointers := [26], trackStatus := [0x90]\<rparr>, 0, Some [0x90, 0x3C, 0x40])"
    by code_simp
  with Read_bufC show ?thesis by (simp add: stateC_def)
qed

section \<open>The delta ticks of NextMIDIEvent\<close>

lemma Read_bufD: "Read bufD = Inr stateD"
  by code_simp

lemma idx_hd: "bs \<noteq> [] \<Longrightarrow> idx bs 0 = Inr (hd bs)"
  by (cases bs) (simp_all add: idx_def)

lemma midiLoop_skips:
  "(t0, e0) # rest = rs @ [(d, Some ev)] \<Longrightarrow>
   nextEvents m track (length rest) = Inr (m', rest) \<Longrightarrow>
   list_all (\<lambda>(ticks, event). skipped event) rs \<Longrightarrow> ev \<noteq> [] \<Longrightarrow> hd ev < 0xF0 \<Longrightarrow>
   midiLoop m track t0 e0 = Inr (m', d, Some ev)"
proof (induction rs arbitrary: m t0 e0 rest)
  case Nil
  then have "t0 = d" "e0 = Some ev" "rest = []" by simp_all
  with Nil show ?case
    by (simp add: midiLoop.simps [of _ track d "Some ev"] idx_hd)
next
  case (Cons r rs)
  from Cons.prems(1) have r: "r = (t0, e0)" and rest: "rest = rs @ [(d, Some ev)]" by simp_all
  from Cons.prems(3) r obtain bs where e0: "e0 = Some bs" and bs: "bs \<noteq> []"
    and hd: "\<not> hd bs < 0xF0" and sk: "list_all (\<lambda>(ticks, event). skipped event) rs"
    by (auto simp: skipped_def split: option.splits)
  from rest have "length rest = Suc (length rs)" by simp
  with Cons.prems(2) obtain m1 t1 e1 rest' where
    ne: "NextEvent m track = Inr (m1, t1, e1)"
    and nes: "nextEvents m1 track (length rs) = Inr (m', rest')"
    and rest': "rest = (t1, e1) # rest'"
    by (auto split: sum.splits)
  from rest rest' have eq: "(t1, e1) # rest' = rs @ [(d, Some ev)]" by simp
  then have "length rest' = length rs"
    by (metis length_Cons length_append_singleton nat.inject)
  with nes have nes': "nextEvents m1 track (length rest') = Inr (m', rest')" by simp
  from Cons.IH [OF eq nes' sk Cons.prems(4) Cons.prems(5)]
  have "midiLoop m1 track t1 e1 = Inr (m', d, Some ev)" .
  with e0 bs hd ne show ?case
    by (simp add: midiLoop.simps [of m track t0 "Some bs"] idx_hd)
qed

text \<open>
  C10. When the calls of \<open>NextEvent\<close> on a track return first the events \<open>rs\<close>, all
  with a first byte of \<open>0xF0\<close> or more, and then the event \<open>ev\<close> with a smaller first
  byte and the delta ticks \<open>d\<close>, then \<open>NextMIDIEvent\<close> on the same file returns
  \<open>ev\<close> with the delta ticks \<open>d\<close> of \<open>ev\<close> alone, and leaves the file as those calls
  of \<open>NextEvent\<close> do. The sum of the delta ticks over the results of \<open>NextEvent\<close>
  is larger than what \<open>NextMIDIEvent\<close> returned by the delta ticks of the dropped
  events.
\<close>

theorem NextMIDIEvent_returns_last_delta:
  assumes nes: "nextEvents m track (Suc (length rs)) = Inr (m', rs @ [(d, Some ev)])"
    and sk: "list_all (\<lambda>(ticks, event). skipped event) rs"
    and ev: "ev \<noteq> []" "hd ev < 0xF0"
  shows "NextMIDIEvent m track = Inr (m', d, Some ev)
         \<and> totalTicks (rs @ [(d, Some ev)]) = totalTicks rs + unat d"
proof -
  from nes obtain m1 t1 e1 rest where
    ne: "NextEvent m track = Inr (m1, t1, e1)"
    and r: "nextEvents m1 track (length rs) = Inr (m', rest)"
    and eq: "(t1, e1) # rest = rs @ [(d, Some ev)]"
    by (auto split: sum.splits)
  from eq have "length rest = length rs"
    by (metis length_Cons length_append_singleton nat.inject)
  with r have r': "nextEvents m1 track (length rest) = Inr (m', rest)" by simp
  from midiLoop_skips [OF eq r' sk ev] have l: "midiLoop m1 track t1 e1 = Inr (m', d, Some ev)" .
  from ne have "\<not> track \<ge> NumTracks m"
    by (auto simp: NextEvent_def split: if_splits)
  with ne l show ?thesis
    by (simp add: NextMIDIEvent_def totalTicks_def)
qed

theorem NextMIDIEvent_returns_last_delta_witness:
  "nextEvents stateD 0 2 =
     Inr (stateD\<lparr>trackPointers := [32], trackStatus := [0x90]\<rparr>,
          [(480, Some [0xFF, 0x01, 0x01, 0x41]), (10, Some [0x90, 0x3C, 0x40])])
   \<and> NextMIDIEvent stateD 0 =
       Inr (stateD\<lparr>trackPointers := [32], trackStatus := [0x90]\<rparr>, 10, Some [0x90, 0x3C, 0x40])
   \<and> totalTicks [(480, Some [0xFF, 0x01, 0x01, 0x41]), (10, Some [0x90, 0x3C, 0x40])] = 490"
proof -
  have 1: "nextEvents stateD 0 (Suc (length [(480 :: uint64, Some [0xFF, 0x01, 0x01, 0x41 :: byte])])) =
     Inr (stateD\<lparr>trackPointers := [32], trackStatus := [0x90]\<rparr>,
          [(480, Some [0xFF, 0x01, 0x01, 0x41])] @ [(10, Some [0x90, 0x3C, 0x40])])"
    by code_simp
  have 2: "list_all (\<lambda>(ticks, event). skipped event) [(480 :: uint64, Some [0xFF, 0x01, 0x01, 0x41 :: byte])]"
    by (simp add: skipped_def)
  have 3: "[0x90, 0x3C, 0x40 :: byte] \<noteq> []" "hd [0x90, 0x3C, 0x40 :: byte] < 0xF0"
    by simp_all
  have 4: "totalTicks [(480, Some [0xFF, 0x01, 0x01, 0x41])] = 480"
    by (simp add: totalTicks_def)
  have 5: "nextEvents stateD 0 2 =
     Inr (stateD\<lparr>trackPointers := [32], trackStatus := [0x90]\<rparr>,
          [(480, Some [0xFF, 0x01, 0x01, 0x41]), (10, Some [0x90, 0x3C, 0x40])])"
    by code_simp
  from NextMIDIEvent_returns_last_delta [OF 1 2 3] 4 5 show ?thesis
    by simp
qed

section \<open>Structural errors\<close>

lemma spec_chunkOffset_start:
  "spec_chunkOffset b start k = Some off \<Longrightarrow> spec_chunkStart b start k = off"
proof (induction k arbitrary: start)
  case 0
  then show ?case by simp
next
  case (Suc k)
  from Suc.prems obtain lb where
    s2: "slice b (start + 4) (start + 8) = Inr lb"
    and rec: "spec_chunkOffset b (start + 8 + beInt32 lb) k = Some off"
    by (auto split: sum.splits if_splits)
  from s2 have "lb = take 4 (drop (nat (start + 4)) (store b))"
    by (auto simp: slice_def split: if_splits)
  with Suc.IH [OF rec] show ?case by simp
qed

lemma indexTracks_bad_magic:
  "spec_chunkOffset b start k = Some off \<Longrightarrow> k < n \<Longrightarrow>
   slice b off (off + 4) = Inr ct \<Longrightarrow> ct \<noteq> MTrk \<Longrightarrow>
   indexTracks b n start = Inl (InvalidTrackHeader ct)"
proof (induction k arbitrary: start n)
  case 0
  then obtain n' where "n = Suc n'" by (cases n) simp_all
  with 0 show ?case by simp
next
  case (Suc k)
  from Suc.prems(2) obtain n' where n: "n = Suc n'" and k: "k < n'" by (cases n) simp_all
  from Suc.prems(1) obtain lb where
    s1: "slice b start (start + 4) = Inr MTrk"
    and s2: "slice b (start + 4) (start + 8) = Inr lb"
    and rec: "spec_chunkOffset b (start + 8 + beInt32 lb) k = Some off"
    by (auto split: sum.splits if_splits)
  from Suc.IH [OF rec k Suc.prems(3) Suc.prems(4)] n s1 s2 show ?case by simp
qed

lemma slice_in_cap:
  "0 \<le> lo \<Longrightarrow> lo \<le> hi \<Longrightarrow> hi \<le> cap b \<Longrightarrow>
     slice b lo hi = Inr (take (nat (hi - lo)) (drop (nat lo) (store b)))"
  by (simp add: slice_def)

lemma Read_bad_magic:
  "4 \<le> cap b \<Longrightarrow> spec_magic b \<noteq> MThd \<Longrightarrow> Read b = Inl (InvalidHeader (spec_magic b))"
  by (simp add: Read_def parseRawData_def slice_in_cap spec_magic_def)

lemma Read_bad_length:
  "8 \<le> cap b \<Longrightarrow> spec_headerLength b \<noteq> 6 \<Longrightarrow> recoverable (Read b)"
  by (simp add: Read_def parseRawData_def slice_in_cap spec_headerLength_def recoverable_def)

lemma Read_bad_format:
  "10 \<le> cap b \<Longrightarrow> spec_format b < 0 \<or> 2 < spec_format b \<Longrightarrow> recoverable (Read b)"
  by (auto simp: Read_def parseRawData_def slice_in_cap spec_format_def recoverable_def)

lemma Read_bad_numTracks:
  "12 \<le> cap b \<Longrightarrow> spec_format b = 0 \<Longrightarrow> spec_numTracks b \<noteq> 1 \<Longrightarrow> recoverable (Read b)"
  by (auto simp: Read_def parseRawData_def slice_in_cap spec_format_def spec_numTracks_def
      recoverable_def)

lemma Read_bad_track_magic:
  assumes c: "14 \<le> cap b" and k: "int k < spec_numTracks b"
    and off: "spec_chunkOffset b 14 k = Some off"
    and ct: "slice b off (off + 4) = Inr ct" "ct \<noteq> MTrk"
  shows "recoverable (Read b)"
proof -
  from k have "k < nat (spec_numTracks b)" by simp
  from indexTracks_bad_magic [OF off this ct]
  have "indexTracks b (nat (beInt16 (take 2 (drop 10 (store b))))) 14 = Inl (InvalidTrackHeader ct)"
    by (simp add: spec_numTracks_def)
  moreover from k have "\<not> beInt16 (take 2 (drop 10 (store b))) < 0"
    by (simp add: spec_numTracks_def)
  ultimately show ?thesis using c
    by (simp add: Read_def parseRawData_def slice_in_cap recoverable_def)
qed

text \<open>
  C7, as amended. \<open>Read\<close> returns an error value that is not a panic, and no file,
  for every buffer that holds the bytes in question inside its capacity and whose first
  four bytes are not \<open>MThd\<close>, or whose header length is not 6, or whose format is not
  0, 1 or 2, or whose format is 0 with a track count other than 1, or that has a track
  chunk \<open>k\<close> below the track count, reached over chunks whose header bytes lie inside
  the capacity and whose magic is \<open>MTrk\<close>, with its four magic bytes inside the
  capacity and other than \<open>MTrk\<close>.
\<close>

theorem Read_structural_errors:
  "(4 \<le> cap b \<and> spec_magic b \<noteq> MThd \<longrightarrow> recoverable (Read b))
   \<and> (8 \<le> cap b \<and> spec_headerLength b \<noteq> 6 \<longrightarrow> recoverable (Read b))
   \<and> (10 \<le> cap b \<and> spec_format b \<notin> {0, 1, 2} \<longrightarrow> recoverable (Read b))
   \<and> (12 \<le> cap b \<and> spec_format b = 0 \<and> spec_numTracks b \<noteq> 1 \<longrightarrow> recoverable (Read b))
   \<and> (14 \<le> cap b \<and> int k < spec_numTracks b \<and> spec_chunkOffset b 14 k = Some off
        \<and> slice b off (off + 4) = Inr ct \<and> ct \<noteq> MTrk \<longrightarrow> recoverable (Read b))"
proof (intro conjI impI)
  assume "4 \<le> cap b \<and> spec_magic b \<noteq> MThd"
  then show "recoverable (Read b)"
    by (simp add: Read_bad_magic recoverable_def)
next
  assume "8 \<le> cap b \<and> spec_headerLength b \<noteq> 6"
  then show "recoverable (Read b)"
    by (simp add: Read_bad_length)
next
  assume a: "10 \<le> cap b \<and> spec_format b \<notin> {0, 1, 2}"
  then have "spec_format b < 0 \<or> 2 < spec_format b" by auto
  with a show "recoverable (Read b)"
    by (simp add: Read_bad_format)
next
  assume "12 \<le> cap b \<and> spec_format b = 0 \<and> spec_numTracks b \<noteq> 1"
  then show "recoverable (Read b)"
    by (simp add: Read_bad_numTracks)
next
  assume "14 \<le> cap b \<and> int k < spec_numTracks b \<and> spec_chunkOffset b 14 k = Some off
        \<and> slice b off (off + 4) = Inr ct \<and> ct \<noteq> MTrk"
  then show "recoverable (Read b)"
    by (blast intro: Read_bad_track_magic)
qed

theorem Read_structural_errors_witness:
  "Read badMagic = Inl (InvalidHeader [0x52, 0x49, 0x46, 0x46]) \<and> recoverable (Read badMagic)
   \<and> Read badLength = Inl NotMIDIFile \<and> recoverable (Read badLength)
   \<and> Read badFormat = Inl (InvalidFormat 3) \<and> recoverable (Read badFormat)
   \<and> Read badCount = Inl InvalidNumTracks \<and> recoverable (Read badCount)
   \<and> Read badTrack = Inl (InvalidTrackHeader [0x4D, 0x54, 0x72, 0x58])
   \<and> recoverable (Read badTrack)"
proof -
  have 1: "4 \<le> cap badMagic \<and> spec_magic badMagic \<noteq> MThd"
    by (simp add: cap_def badMagic_def spec_magic_def MThd_def)
  have 2: "8 \<le> cap badLength \<and> spec_headerLength badLength \<noteq> 6"
    by (simp add: cap_def badLength_def spec_headerLength_def beInt32_def word_rcat_def)
  have 3: "10 \<le> cap badFormat \<and> spec_format badFormat \<notin> {0, 1, 2}"
    by (simp add: cap_def badFormat_def spec_format_def beInt16_def word_rcat_def)
  have 4: "12 \<le> cap badCount \<and> spec_format badCount = 0 \<and> spec_numTracks badCount \<noteq> 1"
    by (simp add: cap_def badCount_def spec_format_def spec_numTracks_def beInt16_def
        word_rcat_def)
  have 5: "14 \<le> cap badTrack \<and> int 1 < spec_numTracks badTrack
      \<and> spec_chunkOffset badTrack 14 1 = Some 26
      \<and> slice badTrack 26 (26 + 4) = Inr [0x4D, 0x54, 0x72, 0x58]
      \<and> [0x4D, 0x54, 0x72, 0x58] \<noteq> MTrk"
    by code_simp
  have r: "Read badMagic = Inl (InvalidHeader [0x52, 0x49, 0x46, 0x46])"
    "Read badLength = Inl NotMIDIFile" "Read badFormat = Inl (InvalidFormat 3)"
    "Read badCount = Inl InvalidNumTracks"
    "Read badTrack = Inl (InvalidTrackHeader [0x4D, 0x54, 0x72, 0x58])"
    by code_simp+
  from Read_structural_errors [of badMagic] 1 have "recoverable (Read badMagic)" by blast
  moreover from Read_structural_errors [of badLength] 2 have "recoverable (Read badLength)"
    by blast
  moreover from Read_structural_errors [of badFormat] 3 have "recoverable (Read badFormat)"
    by blast
  moreover from Read_structural_errors [of badCount] 4 have "recoverable (Read badCount)"
    by blast
  moreover from Read_structural_errors [of badTrack 1 26 "[0x4D, 0x54, 0x72, 0x58]"] 5
  have "recoverable (Read badTrack)" by blast
  ultimately show ?thesis using r by simp
qed

text \<open>
  C7 as stated, for every input buffer, fails where the bytes in question lie outside
  the capacity: the slice expression panics. In \<open>longChunk\<close> the header is valid and
  the first track chunk is well formed, but its declared length puts the second of the
  two track chunks at offset 1046, where the buffer has no \<open>MTrk\<close>; \<open>Read\<close> panics
  at \<open>b[1046:1050]\<close>.
\<close>

theorem Read_panics_counterexample:
  "cap longChunk = 512
   \<and> spec_magic longChunk = MThd \<and> spec_headerLength longChunk = 6
   \<and> spec_format longChunk = 1 \<and> spec_numTracks longChunk = 2
   \<and> spec_chunkMagic longChunk 0 = MTrk
   \<and> spec_chunkStart longChunk 14 1 = 1046
   \<and> spec_chunkMagic longChunk 1 \<noteq> MTrk
   \<and> Read longChunk = Inl Panic
   \<and> \<not> recoverable (Read longChunk)"
  by code_simp

section \<open>The tempo map in NextEvent\<close>

lemma Read_bufT: "Read bufT = Inr stateT"
  by code_simp

lemma classify_format1: "classify raw 1 status bitIndex c = Inr h \<Longrightarrow> \<not> hTempo h"
  by (auto simp: classify_def split: if_splits sum.splits)

lemma decodeEvent_format1: "decodeEvent raw 1 status p = Inr (ticks, h) \<Longrightarrow> \<not> hTempo h"
  by (auto simp: decodeEvent_def split: sum.splits prod.splits dest!: classify_format1)

text \<open>
  C3. What the code does to the rate of a track of a format 1 file without time code,
  at every event that \<open>NextEvent\<close> returns: the tick counter of the track advances by
  the delta ticks of the event; then either the rate and the tempo index stay, or the
  index moves on by one and the rate becomes that of the entry the index \<^emph>\<open>leaves\<close>
  (line 331 reads the entry before line 334 advances the index), which is never the last
  entry of the tempo map. There is one such step for each call, not a loop. So with the
  tempo map of \<open>bufT\<close>, the initial entry and the tempo change at tick 480, tracks 1
  and 2 keep the initial rate after their counters have reached 480.
\<close>

theorem NextEvent_tempo_map_step:
  assumes ne: "NextEvent m track = Inr (m', ticks, Some ev)"
    and fmt: "Format m = 1" and tc: "\<not> UsingTimeCode m"
  shows "trackCounters m' ! nat track = trackCounters m ! nat track + ticks
         \<and> (tickSeconds m' ! nat track = tickSeconds m ! nat track
              \<and> trackTempoIndex m' ! nat track = trackTempoIndex m ! nat track
            \<or> tickSeconds m' ! nat track =
                 TickSeconds (tempoEvents m ! nat (trackTempoIndex m ! nat track))
              \<and> trackTempoIndex m' ! nat track = trackTempoIndex m ! nat track + 1
              \<and> trackTempoIndex m ! nat track < int (length (tempoEvents m)) - 1)"
proof -
  from ne obtain pointer status h m1 where
    d: "decodeEvent (rawData m) (Format m) status pointer = Inr (ticks, h)"
    and u: "updateRate (m\<lparr>trackStatus := (trackStatus m)[nat track := hStatus h]\<rparr>)
              track ticks (hTempo h) (hEvent h) = Inr m1"
    and m': "m' = m1\<lparr>trackPointers := (trackPointers m1)[nat track := hBitIndex h]\<rparr>"
    and ev: "ev = hEvent h"
    unfolding NextEvent_def by (auto split: sum.splits if_splits prod.splits)
  from d fmt have "\<not> hTempo h" by (simp add: decodeEvent_format1)
  with u fmt tc have
    f: "followTempoMap (m\<lparr>trackStatus := (trackStatus m)[nat track := hStatus h]\<rparr>) track ticks
          = Inr m1"
    by (simp add: updateRate_def)
  from f obtain counter ti tempoEvent where
    c: "idx (trackCounters m) track = Inr counter"
    and ti: "idx (trackTempoIndex m) track = Inr ti"
    and te: "idx (tempoEvents m) ti = Inr tempoEvent"
    unfolding followTempoMap_def by (auto simp: Let_def split: sum.splits)
  note c' = idx_Inr [OF c] and ti' = idx_Inr [OF ti] and te' = idx_Inr [OF te]
  from f c ti te c' ti' te' m' show ?thesis
    unfolding followTempoMap_def
    by (auto simp: Let_def split: sum.splits if_splits dest!: upd_Inr)
qed

theorem NextEvent_tempo_map_step_witness:
  "Read bufT = Inr stateT
   \<and> tempoEvents stateT = [\<lparr>Count = 0, TickSeconds = Finite (1 / 192)\<rparr>,
                           \<lparr>Count = 480, TickSeconds = Finite (1 / 3000000)\<rparr>]
   \<and> NextEvent stateT 1 =
       Inr (stateT\<lparr>trackPointers := [22, 47, 63], trackStatus := [0, 0x90, 0],
                  trackCounters := [0, 480, 0], trackTempoIndex := [0, 1, 0]\<rparr>,
            480, Some [0x90, 0x3C, 0x40])
   \<and> nextEvents stateT 1 3 =
       Inr (stateT\<lparr>trackPointers := [22, 55, 63],
                  trackCounters := [0, 480, 0], trackTempoIndex := [0, 1, 0]\<rparr>,
            [(480, Some [0x90, 0x3C, 0x40]), (0, Some [0x80, 0x3C, 0x00]),
             (0, Some [0xFF, 0x2F, 0x00])])
   \<and> TickSeconds_of (stateT\<lparr>trackPointers := [22, 55, 63],
                  trackCounters := [0, 480, 0], trackTempoIndex := [0, 1, 0]\<rparr>) 1 =
       Inr (Finite (1 / 192))"
proof -
  let ?m1 = "stateT\<lparr>trackPointers := [22, 47, 63], trackStatus := [0, 0x90, 0],
                  trackCounters := [0, 480, 0], trackTempoIndex := [0, 1, 0]\<rparr>"
  have 1: "NextEvent stateT 1 = Inr (?m1, 480, Some [0x90, 0x3C, 0x40])"
    by code_simp
  have 2: "Format stateT = 1" "\<not> UsingTimeCode stateT" by (simp_all add: stateT_def)
  have 3: "nextEvents stateT 1 3 =
       Inr (stateT\<lparr>trackPointers := [22, 55, 63],
                  trackCounters := [0, 480, 0], trackTempoIndex := [0, 1, 0]\<rparr>,
            [(480, Some [0x90, 0x3C, 0x40]), (0, Some [0x80, 0x3C, 0x00]),
             (0, Some [0xFF, 0x2F, 0x00])])"
    by code_simp
  have 4: "TickSeconds_of (stateT\<lparr>trackPointers := [22, 55, 63],
                  trackCounters := [0, 480, 0], trackTempoIndex := [0, 1, 0]\<rparr>) 1 =
       Inr (Finite (1 / 192))"
    by code_simp
  have 5: "tempoEvents stateT = [\<lparr>Count = 0, TickSeconds = Finite (1 / 192)\<rparr>,
                           \<lparr>Count = 480, TickSeconds = Finite (1 / 3000000)\<rparr>]"
    by (simp add: stateT_def)
  from NextEvent_tempo_map_step [OF 1 2] Read_bufT 1 3 4 5 show ?thesis
    by simp
qed

end
